theory Spec2Isabelle
  imports Complex_Main "HOL-Library.Word"
begin

unbundle bit_operations_syntax

section \<open>JavaScript values\<close>

text \<open>
  Texts whose characters are inspected (\<open>text.length\<close>, \<open>charCodeAt\<close>) are lists of
  UTF-16 code units. URLs, identifiers, file paths, labels and error messages are only
  stored and compared, and are plain strings. Numbers that carry probabilities and
  timestamps are exact reals; the rounding of double arithmetic is made explicit where a
  statement depends on it, in \<open>rounded_average\<close>.

  A promise either resolves with a value or rejects with an \<open>Error\<close>, of which the
  service only ever reads \<open>message\<close>.
\<close>

type_synonym jstext = "16 word list"

datatype 'a outcome = Resolved 'a | Rejected string

definition js :: "string \<Rightarrow> jstext" where
  "js s = map of_char s"

text \<open>\<open>a || b\<close> on strings (the empty string is falsy), on numbers (zero is falsy) and
  on arrays (every array is truthy); a missing property is \<open>None\<close>.\<close>

definition or_text :: "jstext option \<Rightarrow> jstext \<Rightarrow> jstext" where
  "or_text a b = (case a of Some x \<Rightarrow> if x = [] then b else x | None \<Rightarrow> b)"

definition or_number :: "real option \<Rightarrow> real \<Rightarrow> real" where
  "or_number a b = (case a of Some x \<Rightarrow> if x = 0 then b else x | None \<Rightarrow> b)"

definition or_array :: "'a list option \<Rightarrow> 'a list \<Rightarrow> 'a list" where
  "or_array a b = (case a of Some x \<Rightarrow> x | None \<Rightarrow> b)"

definition or_null :: "string option \<Rightarrow> string option" where
  "or_null a = (case a of Some x \<Rightarrow> if x = [] then None else Some x | None \<Rightarrow> None)"

text \<open>\<open>Array.prototype.join\<close>.\<close>

fun join_with :: "jstext \<Rightarrow> jstext list \<Rightarrow> jstext" where
  "join_with sep [] = []"
| "join_with sep [x] = x"
| "join_with sep (x # y # ys) = x @ sep @ join_with sep (y # ys)"

text \<open>\<open>Number.prototype.toString\<close> on integers, in radix 10 and radix 36.\<close>

definition digit_char :: "nat \<Rightarrow> char" where
  "digit_char d = ''0123456789abcdefghijklmnopqrstuvwxyz'' ! d"

fun digits10 :: "nat \<Rightarrow> string" where
  "digits10 n = (if n < 10 then [digit_char n] else digits10 (n div 10) @ [digit_char (n mod 10)])"

function digits36 :: "int \<Rightarrow> string" where
  "digits36 n =
     (if n < 36 then [digit_char (nat n)]
      else digits36 (n div 36) @ [digit_char (nat (n mod 36))])"
  by pat_completeness auto

termination
  by (relation "measure nat") auto

declare digits10.simps [simp del]

declare digits36.simps [simp del]

definition toString36 :: "int \<Rightarrow> string" where
  "toString36 n = (if n < 0 then CHR ''-'' # digits36 (- n) else digits36 n)"

section \<open>Data model (dto/analysis-result.dto.ts)\<close>

record TranscriptSegment =
  seg_text :: jstext
  start_time :: real
  end_time :: real
  speaker :: "string option"
  ai_probability :: real

record PerplexityMetrics =
  overall_perplexity :: real
  average_perplexity :: real
  burstiness :: real

record SentenceStats =
  total_sentences :: nat
  ai_sentences :: nat
  human_sentences :: nat
  neutral_sentences :: int
  average_sentence_ai_probability :: real

datatype confidence = High | Medium | Low

record OverallAnalysis =
  overall_ai_probability :: real
  overall_prediction :: string
  confidence_level :: confidence
  decision_rationale :: string
  perplexity_metrics :: PerplexityMetrics
  sentence_stats :: SentenceStats

datatype status = Processing | Completed | Error

text \<open>\<open>fullScriptAnalysis\<close> is declared in the DTO but never written by the service;
  it is left out.\<close>

record AnalysisResultDto =
  job_id :: string
  videoUrl :: string
  screenshotPath :: string
  transcript :: "TranscriptSegment list"
  overallAnalysis :: "OverallAnalysis option"
  createdAt :: int
  status :: status
  error :: "string option"

section \<open>What the external collaborators answer\<close>

text \<open>
  A raw unit of the transcription response, with the properties \<open>analyzeTranscript\<close>
  reads; the response itself, with its optional \<open>words\<close> and \<open>segments\<close> arrays.
\<close>

record RawUnit =
  w_word :: "jstext option"
  w_text :: "jstext option"
  w_start_time :: "real option"
  w_start :: "real option"
  w_end_time :: "real option"
  w_end :: "real option"
  w_speaker :: "string option"

record Transcript =
  t_words :: "RawUnit list option"
  t_segments :: "RawUnit list option"

text \<open>The body of the image host's response: \<open>data.success\<close> and \<open>data.data.url\<close>
  (\<open>None\<close> when \<open>data.data\<close> is missing, where reading \<open>url\<close> throws).\<close>

record ImgbbData =
  success :: bool
  data_url :: "string option"

text \<open>
  The answers of the outside world to one job: the browser session up to
  \<open>page.screenshot\<close>, the upload request, the ffmpeg run, reading and transcribing the
  audio file, and the detection request, whose value is \<open>data.output.label\<close>
  (\<open>None\<close> when \<open>data.output\<close> is missing). The world also fixes
  \<open>ytdl.validateURL\<close>.
\<close>

record Tasks =
  shot :: "unit outcome"
  upload :: "ImgbbData outcome"
  audio :: "unit outcome"
  transcription :: "Transcript outcome"
  detection :: "int option outcome"

record World =
  validateURL :: "string \<Rightarrow> bool"
  tasks :: "string \<Rightarrow> Tasks"

section \<open>The service state\<close>

text \<open>
  Where a call of \<open>processVideo\<close> is suspended: at \<open>await Promise.all\<close>, at
  \<open>await this.transcribeAudio(audioPath)\<close>, at the \<open>await axios.post\<close> inside
  \<open>getAIProbability\<close> (with the local variables \<open>audioPath\<close>, \<open>words\<close> and
  \<open>hash\<close>), or not at all because it has returned. The two promises handed to
  \<open>Promise.all\<close> are \<open>None\<close> while pending.
\<close>

datatype stage =
    AwaitAcquisition
  | AwaitTranscription string
  | AwaitClassification string "RawUnit list" string
  | Returned

record Run =
  screenshot_task :: "string outcome option"
  audio_task :: "string outcome option"
  stage :: stage

text \<open>
  The fields of \<open>AnalysisService\<close>, the suspended runs, and three logs of calls made:
  the paths given to \<open>fs.unlink\<close>, the calls of \<open>getAIProbability\<close> and the bodies
  posted to the detection endpoint, the last two with the job that made them.
\<close>

record Service =
  results :: "string \<rightharpoonup> AnalysisResultDto"
  cache :: "string \<rightharpoonup> real"
  uploadsDir :: string
  runs :: "string \<rightharpoonup> Run"
  unlinked :: "string list"
  classified :: "(string \<times> jstext) list"
  posted :: "(string \<times> jstext) list"

text \<open>
  \<open>path.join\<close> of a normalised absolute directory, as \<open>process.cwd()\<close> returns it, and
  a plain file name: one separator between the two, and none added after a directory that
  ends in one (the root).
\<close>

definition path_join :: "string \<Rightarrow> string \<Rightarrow> string" where
  "path_join dir name =
     (if dir = [] then name
      else if last dir = CHR ''/'' then dir @ name
      else dir @ ''/'' @ name)"

definition init :: "string \<Rightarrow> Service" where
  "init cwd = \<lparr> results = Map.empty, cache = Map.empty, uploadsDir = path_join cwd ''temp'',
                runs = Map.empty, unlinked = [], classified = [], posted = [] \<rparr>"

definition set_stage :: "string \<Rightarrow> stage \<Rightarrow> Service \<Rightarrow> Service" where
  "set_stage jid st s =
     (case runs s jid of None \<Rightarrow> s
      | Some r \<Rightarrow> s\<lparr>runs := (runs s)(jid \<mapsto> r\<lparr>stage := st\<rparr>)\<rparr>)"

section \<open>hashString\<close>

fun hash_loop :: "32 word \<Rightarrow> jstext \<Rightarrow> 32 word" where
  "hash_loop hash [] = hash"
| "hash_loop hash (c # cs) =
     hash_loop ((push_bit 5 hash - hash + ucast c) AND 0xffffffff) cs"

definition hashString :: "jstext \<Rightarrow> string" where
  "hashString text = toString36 (sint (hash_loop 0 text))"

section \<open>getAIProbability\<close>

text \<open>
  The function up to its only \<open>await\<close>: it returns at once for a short text or a
  cached fingerprint, and otherwise posts the text and suspends. The first argument names
  the job on whose behalf the call is made, for the logs only.
\<close>

datatype lookup = Immediate real | Suspended string

definition getAIProbability_call :: "string \<Rightarrow> jstext \<Rightarrow> Service \<Rightarrow> lookup \<times> Service" where
  "getAIProbability_call caller text s0 =
     (let s = s0\<lparr>classified := classified s0 @ [(caller, text)]\<rparr> in
      if length text < 50 then (Immediate 0.5, s)
      else
        let hash = hashString text in
        case cache s hash of
          Some p \<Rightarrow> (Immediate p, s)
        | None \<Rightarrow> (Suspended hash, s\<lparr>posted := posted s @ [(caller, text)]\<rparr>))"

text \<open>The rest of the function, once the request has settled.\<close>

definition getAIProbability_reply :: "string \<Rightarrow> int option outcome \<Rightarrow> Service \<Rightarrow> real \<times> Service" where
  "getAIProbability_reply hash reply s =
     (case reply of
        Resolved (Some label) \<Rightarrow>
          (let probability = (if label = 0 then 0.8 else 0.2)
           in (probability, s\<lparr>cache := (cache s)(hash \<mapsto> probability)\<rparr>))
      | Resolved None \<Rightarrow> (0.5, s)
      | Rejected e \<Rightarrow> (0.5, s))"

text \<open>One whole call with nothing else running in between; \<open>reply\<close> is what the
  detection endpoint answers if it is asked.\<close>

definition getAIProbability :: "string \<Rightarrow> int option outcome \<Rightarrow> jstext \<Rightarrow> Service \<Rightarrow> real \<times> Service" where
  "getAIProbability caller reply text s =
     (case getAIProbability_call caller text s of
        (Immediate p, s') \<Rightarrow> (p, s')
      | (Suspended hash, s') \<Rightarrow> getAIProbability_reply hash reply s')"

section \<open>analyzeTranscript\<close>

definition words_of :: "Transcript \<Rightarrow> RawUnit list" where
  "words_of t = or_array (t_words t) (or_array (t_segments t) [])"

definition unit_text :: "RawUnit \<Rightarrow> jstext" where
  "unit_text w = or_text (w_word w) (or_text (w_text w) [])"

definition body_of :: "RawUnit list \<Rightarrow> jstext" where
  "body_of ws = join_with [32] (map unit_text ws)"

definition segments_of :: "RawUnit list \<Rightarrow> real \<Rightarrow> TranscriptSegment list" where
  "segments_of ws aiProbability =
     map (\<lambda>w. \<lparr> seg_text = unit_text w,
                start_time = or_number (w_start_time w) (or_number (w_start w) 0),
                end_time = or_number (w_end_time w) (or_number (w_end w) 0),
                speaker = or_null (w_speaker w),
                ai_probability = aiProbability \<rparr>) ws"

text \<open>Up to the \<open>await\<close> of \<open>getAIProbability\<close>, and from its result on.\<close>

datatype analysis = Done "TranscriptSegment list" | Waiting "RawUnit list" string

definition analyzeTranscript_call :: "string \<Rightarrow> Transcript \<Rightarrow> Service \<Rightarrow> analysis \<times> Service" where
  "analyzeTranscript_call caller t s =
     (let ws = words_of t in
      if length ws = 0 then (Done [], s)
      else
        case getAIProbability_call caller (body_of ws) s of
          (Immediate p, s') \<Rightarrow> (Done (segments_of ws p), s')
        | (Suspended hash, s') \<Rightarrow> (Waiting ws hash, s'))"

definition analyzeTranscript_reply :: "RawUnit list \<Rightarrow> string \<Rightarrow> int option outcome \<Rightarrow> Service \<Rightarrow> TranscriptSegment list \<times> Service" where
  "analyzeTranscript_reply ws hash reply s =
     (case getAIProbability_reply hash reply s of (p, s') \<Rightarrow> (segments_of ws p, s'))"

section \<open>calculateOverallAnalysis\<close>

definition calculateOverallAnalysis :: "TranscriptSegment list \<Rightarrow> OverallAnalysis" where
  "calculateOverallAnalysis segments =
     (let avgProb = foldl (\<lambda>sum s. sum + ai_probability s) 0 segments
                      / (if length segments = 0 then 1 else real (length segments));
          aiCount = length (filter (\<lambda>s. ai_probability s \<ge> 0.7) segments);
          humanCount = length (filter (\<lambda>s. ai_probability s \<le> 0.3) segments)
      in \<lparr> overall_ai_probability = avgProb,
           overall_prediction =
             (if avgProb \<ge> 0.7 then ''AI-Generated Content''
              else if avgProb \<ge> 0.5 then ''Mixed Content'' else ''Human-Generated Content''),
           confidence_level =
             (if real aiCount > real (length segments) * 0.8
                 \<or> real humanCount > real (length segments) * 0.8
              then High else Medium),
           decision_rationale =
             digits10 aiCount @ '' AI-like, '' @ digits10 humanCount @ '' human-like segments'',
           perplexity_metrics =
             \<lparr> overall_perplexity = 0, average_perplexity = 0, burstiness = 0 \<rparr>,
           sentence_stats =
             \<lparr> total_sentences = length segments,
               ai_sentences = aiCount,
               human_sentences = humanCount,
               neutral_sentences = int (length segments) - int aiCount - int humanCount,
               average_sentence_ai_probability = avgProb \<rparr> \<rparr>)"


section \<open>captureScreenshot, uploadToImgBB, extractAudio\<close>

definition screenshot_failed_url :: string where
  "screenshot_failed_url =
     ''https://via.placeholder.com/1280x720/ff4444/ffffff?text=Screenshot+Failed''"

definition upload_failed_url :: string where
  "upload_failed_url =
     ''https://via.placeholder.com/1280x720/ff4444/ffffff?text=Upload+Failed''"

definition uploadToImgBB :: "ImgbbData outcome \<Rightarrow> string" where
  "uploadToImgBB reply =
     (case reply of
        Resolved d \<Rightarrow>
          (if success d
           then (case data_url d of Some u \<Rightarrow> u | None \<Rightarrow> upload_failed_url)
           else upload_failed_url)
      | Rejected e \<Rightarrow> upload_failed_url)"

definition captureScreenshot :: "unit outcome \<Rightarrow> ImgbbData outcome \<Rightarrow> string" where
  "captureScreenshot browser reply =
     (case browser of
        Resolved _ \<Rightarrow> uploadToImgBB reply
      | Rejected e \<Rightarrow> screenshot_failed_url)"

definition extractAudio :: "unit outcome \<Rightarrow> string \<Rightarrow> string \<Rightarrow> string outcome" where
  "extractAudio ffmpeg dir jid =
     (let outputPath = path_join dir (jid @ ''.wav'') in
      case ffmpeg of Resolved _ \<Rightarrow> Resolved outputPath | Rejected e \<Rightarrow> Rejected e)"

section \<open>processVideo\<close>

text \<open>
  \<open>Promise.all\<close> over the two acquisition promises: rejected as soon as one of them
  is, resolved once both are, pending otherwise.
\<close>

fun promise_all :: "'a outcome option \<Rightarrow> 'b outcome option \<Rightarrow> ('a \<times> 'b) outcome option" where
  "promise_all (Some (Rejected e)) _ = Some (Rejected e)"
| "promise_all _ (Some (Rejected e)) = Some (Rejected e)"
| "promise_all (Some (Resolved a)) (Some (Resolved b)) = Some (Resolved (a, b))"
| "promise_all _ _ = None"

text \<open>The call up to \<open>await Promise.all\<close>: both tasks are started, neither has settled.\<close>

definition processVideo :: "string \<Rightarrow> string \<Rightarrow> Service \<Rightarrow> Service" where
  "processVideo jid url s =
     (case results s jid of
        None \<Rightarrow> s
      | Some result \<Rightarrow>
          s\<lparr>runs := (runs s)(jid \<mapsto>
              \<lparr> screenshot_task = None, audio_task = None, stage = AwaitAcquisition \<rparr>)\<rparr>)"

text \<open>The \<open>catch\<close> block.\<close>

definition processVideo_catch :: "string \<Rightarrow> string \<Rightarrow> Service \<Rightarrow> Service" where
  "processVideo_catch jid message s =
     (case results s jid of
        None \<Rightarrow> s
      | Some result \<Rightarrow>
          set_stage jid Returned
            (s\<lparr>results := (results s)(jid \<mapsto> result\<lparr>status := Error, error := Some message\<rparr>)\<rparr>))"

text \<open>Lines 95 to 99: the segments are stored, the job completes, the audio file is
  unlinked.\<close>

definition processVideo_finish :: "string \<Rightarrow> string \<Rightarrow> TranscriptSegment list \<Rightarrow> Service \<Rightarrow> Service" where
  "processVideo_finish jid audioPath segments s =
     (case results s jid of
        None \<Rightarrow> s
      | Some result \<Rightarrow>
          set_stage jid Returned
            (s\<lparr>results := (results s)(jid \<mapsto>
                  result\<lparr>transcript := segments,
                         overallAnalysis := Some (calculateOverallAnalysis segments),
                         status := Completed\<rparr>),
               unlinked := unlinked s @ [audioPath]\<rparr>))"

text \<open>Lines 91 and 92, when \<open>Promise.all\<close> has resolved.\<close>

definition processVideo_acquired :: "string \<Rightarrow> string \<Rightarrow> string \<Rightarrow> Service \<Rightarrow> Service" where
  "processVideo_acquired jid screenshotUrl audioPath s =
     (case results s jid of
        None \<Rightarrow> s
      | Some result \<Rightarrow>
          set_stage jid (AwaitTranscription audioPath)
            (s\<lparr>results := (results s)(jid \<mapsto> result\<lparr>screenshotPath := screenshotUrl\<rparr>)\<rparr>))"

text \<open>Line 93 on, when the transcription has settled.\<close>

definition processVideo_transcribed :: "World \<Rightarrow> string \<Rightarrow> string \<Rightarrow> Service \<Rightarrow> Service" where
  "processVideo_transcribed w jid audioPath s =
     (case transcription (tasks w jid) of
        Rejected e \<Rightarrow> processVideo_catch jid e s
      | Resolved t \<Rightarrow>
          (case analyzeTranscript_call jid t s of
             (Done segments, s') \<Rightarrow> processVideo_finish jid audioPath segments s'
           | (Waiting ws hash, s') \<Rightarrow> set_stage jid (AwaitClassification audioPath ws hash) s'))"

text \<open>When the detection request has settled.\<close>

definition processVideo_classified :: "World \<Rightarrow> string \<Rightarrow> string \<Rightarrow> RawUnit list \<Rightarrow> string \<Rightarrow> Service \<Rightarrow> Service" where
  "processVideo_classified w jid audioPath ws hash s =
     (case analyzeTranscript_reply ws hash (detection (tasks w jid)) s of
        (segments, s') \<Rightarrow> processVideo_finish jid audioPath segments s')"

text \<open>\<open>processVideo\<close> resumes from \<open>await Promise.all\<close> when the combined promise
  has settled.\<close>

definition resume_acquisition :: "string \<Rightarrow> Service \<Rightarrow> Service" where
  "resume_acquisition jid s =
     (case runs s jid of
        None \<Rightarrow> s
      | Some r \<Rightarrow>
          (case stage r of
             AwaitAcquisition \<Rightarrow>
               (case promise_all (screenshot_task r) (audio_task r) of
                  None \<Rightarrow> s
                | Some (Rejected e) \<Rightarrow> processVideo_catch jid e s
                | Some (Resolved (screenshotUrl, audioPath)) \<Rightarrow>
                    processVideo_acquired jid screenshotUrl audioPath s)
           | _ \<Rightarrow> s))"

section \<open>analyzeVideo and getResult\<close>

datatype failure = BadRequest string

text \<open>\<open>jid\<close> is what \<open>uuidv4()\<close> returns and \<open>now\<close> what \<open>new Date()\<close> returns.
  \<open>processVideo\<close> never rejects, so the handler attached with \<open>.catch\<close> never runs.\<close>

definition analyzeVideo :: "World \<Rightarrow> string \<Rightarrow> string \<Rightarrow> int \<Rightarrow> Service \<Rightarrow> failure + (string \<times> Service)" where
  "analyzeVideo w url jid now s =
     (if \<not> validateURL w url then Inl (BadRequest ''Invalid YouTube URL'')
      else
        Inr (jid, processVideo jid url
          (s\<lparr>results := (results s)(jid \<mapsto>
                \<lparr> job_id = jid, videoUrl = url, screenshotPath = '''', transcript = [],
                  overallAnalysis = None, createdAt = now, status = Processing,
                  error = None \<rparr>)\<rparr>)))"

text \<open>What \<open>getResult\<close> answers once its polling loop has ended in state \<open>s\<close>.\<close>

definition getResult :: "string \<Rightarrow> Service \<Rightarrow> failure + AnalysisResultDto" where
  "getResult jid s =
     (case results s jid of
        None \<Rightarrow> Inl (BadRequest ''Analysis not found'')
      | Some result \<Rightarrow>
          (case status result of
             Processing \<Rightarrow> Inl (BadRequest ''Analysis timeout'')
           | Error \<Rightarrow>
               Inl (BadRequest (''Analysis failed: '' @ (case error result of Some m \<Rightarrow> m | None \<Rightarrow> ''undefined'')))
           | Completed \<Rightarrow> Inr result))"

section \<open>Runs of the service\<close>

text \<open>
  What can happen to the service: a submission, or one of the pending external tasks of
  a job settles. \<open>uuidv4()\<close> does not return an identifier that is already in the store.
  An event that names a task which is not pending changes nothing.
\<close>

datatype event =
    Submit string string int
  | ScreenshotSettles string
  | AudioSettles string
  | TranscriptionSettles string
  | DetectionSettles string

fun step :: "World \<Rightarrow> event \<Rightarrow> Service \<Rightarrow> Service" where
  "step w (Submit url jid now) s =
     (case results s jid of
        Some _ \<Rightarrow> s
      | None \<Rightarrow> (case analyzeVideo w url jid now s of Inl _ \<Rightarrow> s | Inr (_, s') \<Rightarrow> s'))"
| "step w (ScreenshotSettles jid) s =
     (case runs s jid of
        None \<Rightarrow> s
      | Some r \<Rightarrow>
          (case screenshot_task r of
             Some _ \<Rightarrow> s
           | None \<Rightarrow>
               resume_acquisition jid
                 (s\<lparr>runs := (runs s)(jid \<mapsto> r\<lparr>screenshot_task :=
                    Some (Resolved (captureScreenshot (shot (tasks w jid)) (upload (tasks w jid))))\<rparr>)\<rparr>)))"
| "step w (AudioSettles jid) s =
     (case runs s jid of
        None \<Rightarrow> s
      | Some r \<Rightarrow>
          (case audio_task r of
             Some _ \<Rightarrow> s
           | None \<Rightarrow>
               resume_acquisition jid
                 (s\<lparr>runs := (runs s)(jid \<mapsto> r\<lparr>audio_task :=
                    Some (extractAudio (audio (tasks w jid)) (uploadsDir s) jid)\<rparr>)\<rparr>)))"
| "step w (TranscriptionSettles jid) s =
     (case runs s jid of
        None \<Rightarrow> s
      | Some r \<Rightarrow>
          (case stage r of
             AwaitTranscription audioPath \<Rightarrow> processVideo_transcribed w jid audioPath s
           | _ \<Rightarrow> s))"
| "step w (DetectionSettles jid) s =
     (case runs s jid of
        None \<Rightarrow> s
      | Some r \<Rightarrow>
          (case stage r of
             AwaitClassification audioPath ws hash \<Rightarrow> processVideo_classified w jid audioPath ws hash s
           | _ \<Rightarrow> s))"

fun exec :: "World \<Rightarrow> event list \<Rightarrow> Service \<Rightarrow> Service" where
  "exec w [] s = s"
| "exec w (e # es) s = exec w es (step w e s)"

section \<open>What holds in every state of a run\<close>

definition own :: "string \<Rightarrow> (string \<times> 'a) list \<Rightarrow> (string \<times> 'a) list" where
  "own jid l = filter (\<lambda>c. fst c = jid) l"

definition prob_ok :: "real \<Rightarrow> bool" where
  "prob_ok p = (p = 0.2 \<or> p = 0.8 \<or> p = 0.5)"

definition cached_value :: "real \<Rightarrow> bool" where
  "cached_value p = (p = 0.8 \<or> p = 0.2)"

definition cache_ok :: "Service \<Rightarrow> bool" where
  "cache_ok s = (\<forall>h p. cache s h = Some p \<longrightarrow> cached_value p)"

definition tasks_ok :: "World \<Rightarrow> Service \<Rightarrow> string \<Rightarrow> Run \<Rightarrow> bool" where
  "tasks_ok w s jid r =
     ((\<forall>x. screenshot_task r = Some x \<longrightarrow>
          x = Resolved (captureScreenshot (shot (tasks w jid)) (upload (tasks w jid))))
      \<and> (\<forall>a. audio_task r = Some a \<longrightarrow>
          a = extractAudio (audio (tasks w jid)) (uploadsDir s) jid))"

definition the_transcript :: "World \<Rightarrow> string \<Rightarrow> Transcript" where
  "the_transcript w jid =
     (case transcription (tasks w jid) of Resolved t \<Rightarrow> t
      | Rejected e \<Rightarrow> \<lparr> t_words = None, t_segments = None \<rparr>)"

definition fresh_job :: "AnalysisResultDto \<Rightarrow> bool" where
  "fresh_job j = (status j = Processing \<and> transcript j = [] \<and> overallAnalysis j = None \<and> error j = None)"

definition job_prob :: "AnalysisResultDto \<Rightarrow> real" where
  "job_prob j = (case transcript j of [] \<Rightarrow> 0.5 | x # _ \<Rightarrow> ai_probability x)"

definition completed_ok :: "World \<Rightarrow> Service \<Rightarrow> string \<Rightarrow> AnalysisResultDto \<Rightarrow> Run \<Rightarrow> bool" where
  "completed_ok w s jid j r =
     (error j = None \<and> screenshot_task r = Some (Resolved (screenshotPath j))
      \<and> (case audio_task r of Some (Resolved p) \<Rightarrow> p \<in> set (unlinked s) | _ \<Rightarrow> False)
      \<and> transcription (tasks w jid) = Resolved (the_transcript w jid)
      \<and> transcript j = segments_of (words_of (the_transcript w jid)) (job_prob j)
      \<and> own jid (classified s) =
           (if words_of (the_transcript w jid) = [] then []
            else [(jid, body_of (words_of (the_transcript w jid)))])
      \<and> prob_ok (job_prob j)
      \<and> overallAnalysis j = Some (calculateOverallAnalysis (transcript j))
      \<and> length (own jid (posted s)) \<le> 1)"

definition failed_ok :: "World \<Rightarrow> string \<Rightarrow> AnalysisResultDto \<Rightarrow> Run \<Rightarrow> bool" where
  "failed_ok w jid j r =
     (transcript j = [] \<and> overallAnalysis j = None \<and> audio_task r \<noteq> None
      \<and> (case audio (tasks w jid) of
            Rejected e \<Rightarrow> error j = Some e
          | Resolved u \<Rightarrow>
              screenshot_task r \<noteq> None
              \<and> (case transcription (tasks w jid) of
                    Rejected e \<Rightarrow> error j = Some e
                  | Resolved t \<Rightarrow> False)))"

definition stage_ok :: "World \<Rightarrow> Service \<Rightarrow> string \<Rightarrow> AnalysisResultDto \<Rightarrow> Run \<Rightarrow> bool" where
  "stage_ok w s jid j r =
     (case stage r of
        AwaitAcquisition \<Rightarrow>
          fresh_job j \<and> promise_all (screenshot_task r) (audio_task r) = None
          \<and> own jid (classified s) = [] \<and> own jid (posted s) = []
      | AwaitTranscription p \<Rightarrow>
          fresh_job j \<and> screenshot_task r = Some (Resolved (screenshotPath j))
          \<and> audio_task r = Some (Resolved p)
          \<and> own jid (classified s) = [] \<and> own jid (posted s) = []
      | AwaitClassification p ws h \<Rightarrow>
          fresh_job j \<and> screenshot_task r = Some (Resolved (screenshotPath j))
          \<and> audio_task r = Some (Resolved p)
          \<and> transcription (tasks w jid) = Resolved (the_transcript w jid)
          \<and> ws = words_of (the_transcript w jid) \<and> ws \<noteq> []
          \<and> h = hashString (body_of ws)
          \<and> own jid (classified s) = [(jid, body_of ws)]
          \<and> own jid (posted s) = [(jid, body_of ws)]
      | Returned \<Rightarrow>
          (case status j of
             Processing \<Rightarrow> False
           | Completed \<Rightarrow> completed_ok w s jid j r
           | Error \<Rightarrow> failed_ok w jid j r))"

definition job_ok :: "World \<Rightarrow> Service \<Rightarrow> string \<Rightarrow> bool" where
  "job_ok w s jid =
     (case results s jid of
        None \<Rightarrow> runs s jid = None \<and> own jid (classified s) = [] \<and> own jid (posted s) = []
      | Some j \<Rightarrow>
          (case runs s jid of
             None \<Rightarrow> False
           | Some r \<Rightarrow> job_id j = jid \<and> tasks_ok w s jid r \<and> stage_ok w s jid j r))"

definition service_ok :: "World \<Rightarrow> Service \<Rightarrow> bool" where
  "service_ok w s = (cache_ok s \<and> (\<forall>jid. job_ok w s jid))"

fun event_job :: "event \<Rightarrow> string" where
  "event_job (Submit url jid now) = jid"
| "event_job (ScreenshotSettles jid) = jid"
| "event_job (AudioSettles jid) = jid"
| "event_job (TranscriptionSettles jid) = jid"
| "event_job (DetectionSettles jid) = jid"

text \<open>What a step on behalf of one job leaves alone in every other job.\<close>

definition frame :: "string \<Rightarrow> Service \<Rightarrow> Service \<Rightarrow> bool" where
  "frame j s s' =
     (results s' j = results s j \<and> runs s' j = runs s j \<and> uploadsDir s' = uploadsDir s
      \<and> own j (classified s') = own j (classified s)
      \<and> own j (posted s') = own j (posted s)
      \<and> set (unlinked s) \<subseteq> set (unlinked s'))"

section \<open>Example runs\<close>

text \<open>The pending tasks of one job settle, one after the other; worlds in which every task of
  every job succeeds, or one of them fails; the run of a single job.\<close>

definition settle_all :: "string \<Rightarrow> event list" where
  "settle_all jid =
     [ScreenshotSettles jid, AudioSettles jid, TranscriptionSettles jid, DetectionSettles jid]"

definition spoken :: "string \<Rightarrow> RawUnit" where
  "spoken t = \<lparr> w_word = Some (js t), w_text = None, w_start_time = Some 1, w_start = None,
                w_end_time = Some 2, w_end = None, w_speaker = None \<rparr>"

definition tasks_succeed :: Tasks where
  "tasks_succeed =
     \<lparr> shot = Resolved (),
       upload = Resolved \<lparr> success = True, data_url = Some ''https://i.ibb.co/a.png'' \<rparr>,
       audio = Resolved (),
       transcription = Resolved
         \<lparr> t_words = Some [spoken ''the quick brown fox jumps'',
                            spoken ''over the lazy dog and runs away''],
           t_segments = None \<rparr>,
       detection = Resolved (Some 0) \<rparr>"

definition world_of :: "Tasks \<Rightarrow> World" where
  "world_of t = \<lparr> validateURL = (\<lambda>u. take 8 u = ''https://''), tasks = (\<lambda>jid. t) \<rparr>"

definition one_job :: "event list" where
  "one_job = Submit ''https://youtu.be/dQw4w9WgXcQ'' ''job-1'' 1700000000000 # settle_all ''job-1''"

definition tasks_silent :: Tasks where
  "tasks_silent = tasks_succeed\<lparr> transcription := Resolved \<lparr> t_words = Some [], t_segments = None \<rparr> \<rparr>"

definition tasks_untranscribed :: Tasks where
  "tasks_untranscribed =
     tasks_succeed\<lparr> transcription := Rejected ''Request failed with status code 401'' \<rparr>"

definition tasks_unextracted :: Tasks where
  "tasks_unextracted = tasks_succeed\<lparr> audio := Rejected ''ffmpeg exited with code 1'' \<rparr>"

definition tasks_unextracted_mute :: Tasks where
  "tasks_unextracted_mute = tasks_succeed\<lparr> audio := Rejected [] \<rparr>"


definition tasks_unseen :: Tasks where
  "tasks_unseen = tasks_succeed\<lparr> shot := Rejected ''Navigation timeout of 15000 ms exceeded'' \<rparr>"

definition answered :: "int option outcome \<Rightarrow> bool" where
  "answered reply = (case reply of Resolved (Some label) \<Rightarrow> True | _ \<Rightarrow> False)"

definition long_text :: jstext where
  "long_text = js ''the quick brown fox jumps over the lazy dog and runs away''"

definition thumbnail_fails :: "Tasks \<Rightarrow> bool" where
  "thumbnail_fails t =
     (case shot t of
        Rejected e \<Rightarrow> True
      | Resolved _ \<Rightarrow>
          (case upload t of
             Rejected e \<Rightarrow> True
           | Resolved d \<Rightarrow> \<not> success d \<or> data_url d = None))"

definition resolves :: "'a outcome \<Rightarrow> bool" where
  "resolves x = (case x of Resolved _ \<Rightarrow> True | Rejected _ \<Rightarrow> False)"

section \<open>The invariant is kept by every step\<close>

lemma frame_refl [simp]: "frame j s s"
  by (simp add: frame_def)

lemma frame_trans: "frame j s s' \<Longrightarrow> frame j s' s'' \<Longrightarrow> frame j s s''"
  by (auto simp: frame_def)

lemma frame_set_stage: "j \<noteq> jid \<Longrightarrow> frame j s (set_stage jid st s)"
  by (simp add: frame_def set_stage_def split: option.splits)

lemma frame_catch: "j \<noteq> jid \<Longrightarrow> frame j s (processVideo_catch jid m s)"
  by (simp add: frame_def processVideo_catch_def set_stage_def split: option.splits)

lemma frame_finish: "j \<noteq> jid \<Longrightarrow> frame j s (processVideo_finish jid p segs s)"
  by (auto simp add: frame_def processVideo_finish_def set_stage_def split: option.splits)

lemma frame_acquired: "j \<noteq> jid \<Longrightarrow> frame j s (processVideo_acquired jid u p s)"
  by (simp add: frame_def processVideo_acquired_def set_stage_def split: option.splits)

lemma frame_resume: "j \<noteq> jid \<Longrightarrow> frame j s (resume_acquisition jid s)"
  by (simp add: resume_acquisition_def frame_catch frame_acquired
           split: option.splits stage.splits outcome.splits prod.splits)

lemma frame_call: "j \<noteq> jid \<Longrightarrow> getAIProbability_call jid text s = (l, s') \<Longrightarrow> frame j s s'"
  by (auto simp: getAIProbability_call_def Let_def frame_def own_def split: if_splits option.splits)

lemma frame_reply: "getAIProbability_reply h reply s = (p, s') \<Longrightarrow> frame j s s'"
  by (auto simp: getAIProbability_reply_def Let_def frame_def split: outcome.splits option.splits)

lemma frame_analyze_call:
  "j \<noteq> jid \<Longrightarrow> analyzeTranscript_call jid t s = (a, s') \<Longrightarrow> frame j s s'"
  by (auto simp: analyzeTranscript_call_def Let_def split: if_splits prod.splits lookup.splits
           dest: frame_call)

lemma frame_analyze_reply:
  "analyzeTranscript_reply ws h reply s = (segs, s') \<Longrightarrow> frame j s s'"
  by (auto simp: analyzeTranscript_reply_def split: prod.splits dest: frame_reply)

lemma frame_transcribed: "j \<noteq> jid \<Longrightarrow> frame j s (processVideo_transcribed w jid p s)"
proof (cases "transcription (tasks w jid)")
  case (Rejected e)
  assume "j \<noteq> jid"
  with Rejected show ?thesis by (simp add: processVideo_transcribed_def frame_catch)
next
  case (Resolved t)
  assume ne: "j \<noteq> jid"
  obtain a s' where a: "analyzeTranscript_call jid t s = (a, s')" by (cases "analyzeTranscript_call jid t s")
  have f: "frame j s s'" using frame_analyze_call [OF ne a] .
  show ?thesis
  proof (cases a)
    case (Done segs)
    with Resolved a show ?thesis
      by (simp add: processVideo_transcribed_def frame_trans [OF f frame_finish [OF ne]])
  next
    case (Waiting ws h)
    with Resolved a show ?thesis
      by (simp add: processVideo_transcribed_def frame_trans [OF f frame_set_stage [OF ne]])
  qed
qed

lemma frame_classified: "j \<noteq> jid \<Longrightarrow> frame j s (processVideo_classified w jid p ws h s)"
proof -
  assume ne: "j \<noteq> jid"
  obtain segs s' where a: "analyzeTranscript_reply ws h (detection (tasks w jid)) s = (segs, s')"
    by (cases "analyzeTranscript_reply ws h (detection (tasks w jid)) s")
  show ?thesis using a
    by (simp add: processVideo_classified_def
          frame_trans [OF frame_analyze_reply [OF a] frame_finish [OF ne]])
qed

lemma frame_runs_upd: "j \<noteq> jid \<Longrightarrow> frame j s (s\<lparr>runs := (runs s)(jid \<mapsto> r)\<rparr>)"
  by (simp add: frame_def)

lemma frame_step: "j \<noteq> event_job e \<Longrightarrow> frame j s (step w e s)"
proof (cases e)
  case (Submit url jid now)
  assume "j \<noteq> event_job e"
  with Submit show ?thesis
    by (auto simp: frame_def analyzeVideo_def processVideo_def split: option.splits)
next
  case (ScreenshotSettles jid)
  assume "j \<noteq> event_job e"
  with ScreenshotSettles have ne: "j \<noteq> jid" by simp
  show ?thesis
    by (auto simp: ScreenshotSettles split: option.splits
             intro!: frame_trans [OF frame_runs_upd [OF ne] frame_resume [OF ne]])
next
  case (AudioSettles jid)
  assume "j \<noteq> event_job e"
  with AudioSettles have ne: "j \<noteq> jid" by simp
  show ?thesis
    by (auto simp: AudioSettles split: option.splits
             intro!: frame_trans [OF frame_runs_upd [OF ne] frame_resume [OF ne]])
next
  case (TranscriptionSettles jid)
  assume "j \<noteq> event_job e"
  with TranscriptionSettles show ?thesis
    by (auto simp: frame_transcribed split: option.splits stage.splits)
next
  case (DetectionSettles jid)
  assume "j \<noteq> event_job e"
  with DetectionSettles show ?thesis
    by (auto simp: frame_classified split: option.splits stage.splits)
qed

lemma completed_ok_frame:
  "frame j s s' \<Longrightarrow> completed_ok w s j x r \<Longrightarrow> completed_ok w s' j x r"
  unfolding completed_ok_def frame_def
  by (cases "audio_task r") (auto split: outcome.splits)

lemma stage_ok_frame:
  assumes f: "frame j s s'" and ok: "stage_ok w s j x r"
  shows "stage_ok w s' j x r"
proof -
  have eqs: "own j (classified s') = own j (classified s)" "own j (posted s') = own j (posted s)"
    using f by (simp_all add: frame_def)
  show ?thesis
    using ok completed_ok_frame [OF f, of w x r]
    by (cases "stage r"; cases "status x") (simp_all add: stage_ok_def eqs)
qed

lemma tasks_ok_frame: "frame j s s' \<Longrightarrow> tasks_ok w s j r \<Longrightarrow> tasks_ok w s' j r"
  by (simp add: tasks_ok_def frame_def)

lemma job_ok_frame:
  assumes f: "frame j s s'" and ok: "job_ok w s j"
  shows "job_ok w s' j"
proof -
  have eqs: "results s' j = results s j" "runs s' j = runs s j"
    "own j (classified s') = own j (classified s)" "own j (posted s') = own j (posted s)"
    using f by (simp_all add: frame_def)
  show ?thesis
    using ok stage_ok_frame [OF f] tasks_ok_frame [OF f]
    by (cases "results s j"; cases "runs s j") (auto simp: job_ok_def eqs)
qed

lemmas fin_defs = processVideo_catch_def processVideo_finish_def processVideo_acquired_def set_stage_def

lemma job_okD:
  assumes "job_ok w s jid" and "runs s jid = Some r"
  obtains j where "results s jid = Some j" and "job_id j = jid"
    and "tasks_ok w s jid r" and "stage_ok w s jid j r"
  using assms by (auto simp: job_ok_def split: option.splits)

lemma own_screenshot:
  assumes ok: "job_ok w s jid"
  shows "job_ok w (step w (ScreenshotSettles jid) s) jid"
proof (cases "runs s jid")
  case None
  then show ?thesis using ok by simp
next
  case r: (Some r)
  from ok r obtain j where j: "results s jid = Some j" "job_id j = jid"
    "tasks_ok w s jid r" "stage_ok w s jid j r"
    by (rule job_okD)
  show ?thesis
  proof (cases "screenshot_task r")
    case (Some x)
    with r ok show ?thesis by simp
  next
    case None
    note facts = r j None
    show ?thesis
    proof (cases "stage r")
      case AwaitAcquisition
      then show ?thesis
        using facts
        by (cases "audio_task r"; cases "audio (tasks w jid)")
           (simp_all add: job_ok_def resume_acquisition_def stage_ok_def tasks_ok_def fin_defs
              fresh_job_def extractAudio_def)
    next
      case (AwaitTranscription p)
      then show ?thesis using facts by (simp add: stage_ok_def)
    next
      case (AwaitClassification p ws h)
      then show ?thesis using facts by (simp add: stage_ok_def)
    next
      case Returned
      then show ?thesis
        using facts
        by (cases "status j"; cases "audio (tasks w jid)")
           (simp_all add: job_ok_def resume_acquisition_def stage_ok_def tasks_ok_def
              completed_ok_def failed_ok_def)
    qed
  qed
qed

lemma own_audio:
  assumes ok: "job_ok w s jid"
  shows "job_ok w (step w (AudioSettles jid) s) jid"
proof (cases "runs s jid")
  case None
  then show ?thesis using ok by simp
next
  case r: (Some r)
  from ok r obtain j where j: "results s jid = Some j" "job_id j = jid"
    "tasks_ok w s jid r" "stage_ok w s jid j r"
    by (rule job_okD)
  show ?thesis
  proof (cases "audio_task r")
    case (Some x)
    with r ok show ?thesis by simp
  next
    case None
    note facts = r j None
    show ?thesis
    proof (cases "stage r")
      case AwaitAcquisition
      then show ?thesis
        using facts
        by (cases "screenshot_task r"; cases "audio (tasks w jid)")
           (simp_all add: job_ok_def resume_acquisition_def stage_ok_def tasks_ok_def fin_defs
              fresh_job_def extractAudio_def failed_ok_def)
    next
      case (AwaitTranscription p)
      then show ?thesis using facts by (simp add: stage_ok_def)
    next
      case (AwaitClassification p ws h)
      then show ?thesis using facts by (simp add: stage_ok_def)
    next
      case Returned
      then show ?thesis
        using facts
        by (cases "status j"; cases "audio (tasks w jid)")
           (simp_all add: job_ok_def resume_acquisition_def stage_ok_def tasks_ok_def
              completed_ok_def failed_ok_def)
    qed
  qed
qed

lemma own_append [simp]: "own j (l @ [(jid, x)]) = (if j = jid then own j l @ [(jid, x)] else own j l)"
  by (simp add: own_def)

lemma first_probability:
  "ws \<noteq> [] \<Longrightarrow> (case segments_of ws p of [] \<Rightarrow> 0.5 | x # _ \<Rightarrow> ai_probability x) = p"
  by (cases ws) (simp_all add: segments_of_def)

lemma segments_of_Nil [simp]: "segments_of [] p = []"
  by (simp add: segments_of_def)

lemma segments_of_eq_Nil [simp]: "segments_of ws p = [] \<longleftrightarrow> ws = []"
  by (simp add: segments_of_def)

lemma audio_resolved:
  "extractAudio a dir jid = Resolved p \<Longrightarrow> \<exists>u. a = Resolved u"
  by (cases a) (simp_all add: extractAudio_def)

lemma tasks_ok_cong:
  "tasks_ok w s jid r \<Longrightarrow> uploadsDir s' = uploadsDir s \<Longrightarrow>
   screenshot_task r' = screenshot_task r \<Longrightarrow> audio_task r' = audio_task r \<Longrightarrow>
   tasks_ok w s' jid r'"
  by (simp add: tasks_ok_def)

lemma own_transcription:
  assumes ok: "job_ok w s jid" and c: "cache_ok s"
  shows "job_ok w (step w (TranscriptionSettles jid) s) jid"
proof (cases "runs s jid")
  case None
  then show ?thesis using ok by simp
next
  case r: (Some r)
  from ok r obtain j where j: "results s jid = Some j" "job_id j = jid"
    "tasks_ok w s jid r" "stage_ok w s jid j r"
    by (rule job_okD)
  show ?thesis
  proof (cases "stage r")
    case AwaitAcquisition
    with r ok show ?thesis by simp
  next
    case (AwaitClassification p ws h)
    with r ok show ?thesis by simp
  next
    case Returned
    with r ok show ?thesis by simp
  next
    case st: (AwaitTranscription p)
    from j st have inv: "fresh_job j" "screenshot_task r = Some (Resolved (screenshotPath j))"
      "audio_task r = Some (Resolved p)" "own jid (classified s) = []" "own jid (posted s) = []"
      by (simp_all add: stage_ok_def)
    from j(3) inv(3) obtain u where au: "audio (tasks w jid) = Resolved u"
      using audio_resolved [of "audio (tasks w jid)" "uploadsDir s" jid p]
      by (auto simp: tasks_ok_def)
    have step: "step w (TranscriptionSettles jid) s = processVideo_transcribed w jid p s"
      using r st by simp
    have "job_ok w (processVideo_transcribed w jid p s) jid"
    proof (cases "transcription (tasks w jid)")
      case (Rejected e)
      then show ?thesis
        using r j(1,2) inv tasks_ok_cong [OF j(3)] au
        by (simp add: processVideo_transcribed_def fin_defs job_ok_def
              stage_ok_def failed_ok_def fresh_job_def)
    next
      case (Resolved t)
      then have tt: "the_transcript w jid = t" by (simp add: the_transcript_def)
      show ?thesis
      proof (cases "words_of t = []")
        case True
        then show ?thesis
          using r j(1,2) inv tasks_ok_cong [OF j(3)] Resolved tt
          by (simp add: processVideo_transcribed_def analyzeTranscript_call_def fin_defs
                job_ok_def stage_ok_def completed_ok_def fresh_job_def job_prob_def
                prob_ok_def)
      next
        case False
        note ne = False
        show ?thesis
        proof (cases "length (body_of (words_of t)) < 50")
          case True
          then show ?thesis
            using r j(1,2) inv tasks_ok_cong [OF j(3)] Resolved tt ne
            by (simp add: processVideo_transcribed_def analyzeTranscript_call_def
                getAIProbability_call_def fin_defs Let_def
                job_ok_def stage_ok_def completed_ok_def fresh_job_def job_prob_def
                prob_ok_def first_probability)
        next
          case long: False
          show ?thesis
          proof (cases "cache s (hashString (body_of (words_of t)))")
            case None
            then show ?thesis
              using r j(1,2) inv tasks_ok_cong [OF j(3)] Resolved tt ne long
              by (simp add: processVideo_transcribed_def analyzeTranscript_call_def
                  getAIProbability_call_def fin_defs Let_def
                  job_ok_def stage_ok_def fresh_job_def)
          next
            case (Some q)
            with c have "prob_ok q" by (auto simp: cache_ok_def cached_value_def prob_ok_def)
            then show ?thesis
              using r j(1,2) inv tasks_ok_cong [OF j(3)] Resolved tt ne long Some
              by (simp add: processVideo_transcribed_def analyzeTranscript_call_def
                  getAIProbability_call_def fin_defs Let_def
                  job_ok_def stage_ok_def completed_ok_def fresh_job_def job_prob_def
                  first_probability)
          qed
        qed
      qed
    qed
    then show ?thesis by (simp only: step)
  qed
qed

lemma reply_probability:
  "getAIProbability_reply h reply s = (p, s') \<Longrightarrow> prob_ok p"
  by (auto simp: getAIProbability_reply_def prob_ok_def Let_def
           split: outcome.splits option.splits if_splits)

lemma reply_state:
  "getAIProbability_reply h reply s = (p, s') \<Longrightarrow>
     results s' = results s \<and> runs s' = runs s \<and> uploadsDir s' = uploadsDir s
     \<and> unlinked s' = unlinked s \<and> classified s' = classified s \<and> posted s' = posted s"
  by (auto simp: getAIProbability_reply_def Let_def split: outcome.splits option.splits)

lemma own_detection:
  assumes ok: "job_ok w s jid"
  shows "job_ok w (step w (DetectionSettles jid) s) jid"
proof (cases "runs s jid")
  case None
  then show ?thesis using ok by simp
next
  case r: (Some r)
  from ok r obtain j where j: "results s jid = Some j" "job_id j = jid"
    "tasks_ok w s jid r" "stage_ok w s jid j r"
    by (rule job_okD)
  show ?thesis
  proof (cases "stage r")
    case AwaitAcquisition
    with r ok show ?thesis by simp
  next
    case (AwaitTranscription p)
    with r ok show ?thesis by simp
  next
    case Returned
    with r ok show ?thesis by simp
  next
    case st: (AwaitClassification p ws h)
    from j st have inv: "fresh_job j" "screenshot_task r = Some (Resolved (screenshotPath j))"
      "audio_task r = Some (Resolved p)"
      "transcription (tasks w jid) = Resolved (the_transcript w jid)"
      "ws = words_of (the_transcript w jid)" "ws \<noteq> []"
      "own jid (classified s) = [(jid, body_of ws)]" "own jid (posted s) = [(jid, body_of ws)]"
      by (auto simp: stage_ok_def)
    obtain q s' where q: "getAIProbability_reply h (detection (tasks w jid)) s = (q, s')"
      by (cases "getAIProbability_reply h (detection (tasks w jid)) s")
    note pq = reply_probability [OF q] and sq = reply_state [OF q]
    have step: "step w (DetectionSettles jid) s = processVideo_finish jid p (segments_of ws q) s'"
      using r st q by (simp add: processVideo_classified_def analyzeTranscript_reply_def)
    have "job_ok w (processVideo_finish jid p (segments_of ws q) s') jid"
      using r j(1,2) inv tasks_ok_cong [OF j(3)] pq sq
      by (simp add: fin_defs job_ok_def stage_ok_def completed_ok_def
            fresh_job_def job_prob_def first_probability)
    then show ?thesis by (simp only: step)
  qed
qed

lemma cache_set_stage [simp]: "cache (set_stage jid st s) = cache s"
  by (simp add: set_stage_def split: option.splits)

lemma cache_catch [simp]: "cache (processVideo_catch jid m s) = cache s"
  by (simp add: processVideo_catch_def split: option.splits)

lemma cache_finish [simp]: "cache (processVideo_finish jid p segs s) = cache s"
  by (simp add: processVideo_finish_def split: option.splits)

lemma cache_acquired [simp]: "cache (processVideo_acquired jid u p s) = cache s"
  by (simp add: processVideo_acquired_def split: option.splits)

lemma cache_resume [simp]: "cache (resume_acquisition jid s) = cache s"
  by (simp add: resume_acquisition_def split: option.splits stage.splits outcome.splits prod.splits)

lemma cache_call: "getAIProbability_call c t s = (l, s') \<Longrightarrow> cache s' = cache s"
  by (auto simp: getAIProbability_call_def Let_def split: if_splits option.splits)

lemma cache_ok_upd:
  "cache_ok s \<Longrightarrow> cached_value q \<Longrightarrow> cache_ok (s\<lparr>cache := (cache s)(h \<mapsto> q)\<rparr>)"
  by (simp add: cache_ok_def)

lemma cache_ok_reply:
  "getAIProbability_reply h reply s = (p, s') \<Longrightarrow> cache_ok s \<Longrightarrow> cache_ok s'"
  by (auto simp: getAIProbability_reply_def Let_def cached_value_def
           split: outcome.splits option.splits if_splits intro!: cache_ok_upd)

lemma cache_transcribed [simp]: "cache (processVideo_transcribed w jid p s) = cache s"
  by (auto simp: processVideo_transcribed_def analyzeTranscript_call_def Let_def
           split: outcome.splits prod.splits analysis.splits lookup.splits if_splits
           dest: cache_call)

lemma cache_ok_same [simp]:
  "cache_ok (processVideo_finish jid p segs s) = cache_ok s"
  "cache_ok (processVideo_transcribed w jid p s) = cache_ok s"
  "cache_ok (resume_acquisition jid s) = cache_ok s"
  "cache_ok (s\<lparr>runs := x\<rparr>) = cache_ok s"
  by (simp_all add: cache_ok_def)

lemma cache_ok_classified:
  assumes "cache_ok s"
  shows "cache_ok (processVideo_classified w jid p ws h s)"
proof -
  obtain q s' where q: "getAIProbability_reply h (detection (tasks w jid)) s = (q, s')"
    by (cases "getAIProbability_reply h (detection (tasks w jid)) s")
  from cache_ok_reply [OF q assms] show ?thesis
    by (simp add: processVideo_classified_def analyzeTranscript_reply_def q)
qed

lemma cache_ok_step: "cache_ok s \<Longrightarrow> cache_ok (step w e s)"
proof (cases e)
  case (Submit url jid now)
  assume "cache_ok s"
  then show ?thesis
    by (auto simp: Submit cache_ok_def analyzeVideo_def processVideo_def split: option.splits)
next
  case (DetectionSettles jid)
  assume "cache_ok s"
  then show ?thesis
    by (auto simp: DetectionSettles cache_ok_classified split: option.splits stage.splits)
qed (auto split: option.splits stage.splits)

lemma own_submit:
  assumes ok: "job_ok w s jid"
  shows "job_ok w (step w (Submit url jid now) s) jid"
proof (cases "results s jid")
  case (Some j)
  with ok show ?thesis by simp
next
  case None
  with ok show ?thesis
    by (simp add: job_ok_def analyzeVideo_def processVideo_def tasks_ok_def stage_ok_def
          fresh_job_def own_def)
qed

lemma own_step:
  assumes "job_ok w s (event_job e)" and "cache_ok s"
  shows "job_ok w (step w e s) (event_job e)"
  using assms
  by (cases e) (simp_all add: own_submit own_screenshot own_audio own_transcription own_detection
                   del: step.simps)

lemma service_ok_step:
  assumes "service_ok w s"
  shows "service_ok w (step w e s)"
proof -
  from assms have c: "cache_ok s" and j: "\<And>jid. job_ok w s jid"
    by (simp_all add: service_ok_def)
  have "job_ok w (step w e s) jid" for jid
  proof (cases "jid = event_job e")
    case True
    then show ?thesis using own_step [OF j c, of e] by simp
  next
    case False
    then show ?thesis using job_ok_frame [OF frame_step j] by simp
  qed
  then show ?thesis using cache_ok_step [OF c] by (simp add: service_ok_def)
qed

lemma service_ok_init: "service_ok w (init cwd)"
  by (simp add: service_ok_def cache_ok_def job_ok_def init_def own_def)

lemma service_ok_exec_from: "service_ok w s \<Longrightarrow> service_ok w (exec w evs s)"
  by (induction evs arbitrary: s) (simp_all add: service_ok_step del: step.simps)

lemma service_ok_exec: "service_ok w (exec w evs (init cwd))"
  by (rule service_ok_exec_from [OF service_ok_init])

lemma exec_append: "exec w (es @ es') s = exec w es' (exec w es s)"
  by (induction es arbitrary: s) simp_all

section \<open>Every job can be brought to an end\<close>

lemma reached:
  assumes "results (exec w evs (init cwd)) jid = Some j"
  obtains r where "runs (exec w evs (init cwd)) jid = Some r" and "job_id j = jid"
    and "tasks_ok w (exec w evs (init cwd)) jid r" and "stage_ok w (exec w evs (init cwd)) jid j r"
proof -
  have "job_ok w (exec w evs (init cwd)) jid"
    using service_ok_exec [of w evs cwd] by (simp add: service_ok_def)
  with assms that show thesis
    by (auto simp: job_ok_def split: option.splits)
qed

lemma stage_ok_cases:
  assumes "stage_ok w s jid j r"
  obtains (processing) "status j = Processing" and "fresh_job j" and "stage r \<noteq> Returned"
  | (completed) "status j = Completed" and "stage r = Returned" and "completed_ok w s jid j r"
  | (failed) "status j = Error" and "stage r = Returned" and "failed_ok w jid j r"
  using assms
  by (cases "stage r"; cases "status j") (simp_all add: stage_ok_def fresh_job_def)

text \<open>Settling the tasks of a job, one after the other.\<close>

lemma screenshot_settled:
  "runs s jid = Some r \<Longrightarrow>
   \<exists>r'. runs (step w (ScreenshotSettles jid) s) jid = Some r'
        \<and> screenshot_task r' \<noteq> None \<and> audio_task r' = audio_task r"
  by (cases "screenshot_task r")
     (auto simp: resume_acquisition_def fin_defs
           split: option.splits stage.splits outcome.splits prod.splits)

lemma audio_settled:
  "runs s jid = Some r \<Longrightarrow>
   \<exists>r'. runs (step w (AudioSettles jid) s) jid = Some r'
        \<and> audio_task r' \<noteq> None \<and> screenshot_task r' = screenshot_task r"
  by (cases "audio_task r")
     (auto simp: resume_acquisition_def fin_defs
           split: option.splits stage.splits outcome.splits prod.splits)

lemma acquisition_over:
  assumes "stage_ok w s jid j r" and "screenshot_task r \<noteq> None" and "audio_task r \<noteq> None"
  shows "stage r \<noteq> AwaitAcquisition"
proof
  assume "stage r = AwaitAcquisition"
  with assms(1) have "promise_all (screenshot_task r) (audio_task r) = None"
    by (simp add: stage_ok_def)
  with assms(2,3) show False
    by (cases "screenshot_task r"; cases "audio_task r")
       (auto elim: promise_all.elims)
qed

lemma stage_after_fin:
  assumes "results s jid = Some j" and "runs s jid = Some r"
  shows "runs (processVideo_catch jid m s) jid = Some (r\<lparr>stage := Returned\<rparr>)"
    and "runs (processVideo_finish jid p segs s) jid = Some (r\<lparr>stage := Returned\<rparr>)"
  using assms by (simp_all add: fin_defs)

lemma call_keeps:
  "getAIProbability_call c t s = (l, s') \<Longrightarrow> results s' = results s \<and> runs s' = runs s"
  by (auto simp: getAIProbability_call_def Let_def split: if_splits option.splits)

lemma transcription_settled:
  assumes j: "results s jid = Some j" and r: "runs s jid = Some r"
    and st: "stage r \<noteq> AwaitAcquisition"
  shows "\<exists>r'. runs (step w (TranscriptionSettles jid) s) jid = Some r'
             \<and> stage r' \<noteq> AwaitAcquisition \<and> (\<forall>p. stage r' \<noteq> AwaitTranscription p)"
proof (cases "stage r")
  case AwaitAcquisition
  with st show ?thesis by simp
next
  case (AwaitClassification p ws h)
  with r show ?thesis by simp
next
  case Returned
  with r show ?thesis by simp
next
  case (AwaitTranscription p)
  then have step: "step w (TranscriptionSettles jid) s = processVideo_transcribed w jid p s"
    using r by simp
  show ?thesis
  proof (cases "transcription (tasks w jid)")
    case (Rejected e)
    then show ?thesis
      unfolding step using stage_after_fin(1) [OF j r, of e]
      by (simp add: processVideo_transcribed_def)
  next
    case (Resolved t)
    obtain a s' where a: "analyzeTranscript_call jid t s = (a, s')"
      by (cases "analyzeTranscript_call jid t s")
    then have keep: "results s' jid = Some j" "runs s' jid = Some r"
      using j r
      by (auto simp: analyzeTranscript_call_def Let_def
               split: if_splits prod.splits lookup.splits dest: call_keeps)
    show ?thesis
    proof (cases a)
      case (Done segs)
      then show ?thesis
        unfolding step using stage_after_fin(2) [OF keep, of p segs] Resolved a
        by (simp add: processVideo_transcribed_def)
    next
      case (Waiting ws h)
      then show ?thesis
        unfolding step using Resolved a keep
        by (simp add: processVideo_transcribed_def set_stage_def)
    qed
  qed
qed

lemma detection_settled:
  assumes j: "results s jid = Some j" and r: "runs s jid = Some r"
    and st: "stage r \<noteq> AwaitAcquisition" "\<And>p. stage r \<noteq> AwaitTranscription p"
  shows "\<exists>r'. runs (step w (DetectionSettles jid) s) jid = Some r' \<and> stage r' = Returned"
proof (cases "stage r")
  case AwaitAcquisition
  with st show ?thesis by simp
next
  case (AwaitTranscription p)
  with st(2) [of p] show ?thesis by simp
next
  case Returned
  with r show ?thesis by simp
next
  case (AwaitClassification p ws h)
  obtain q s' where q: "getAIProbability_reply h (detection (tasks w jid)) s = (q, s')"
    by (cases "getAIProbability_reply h (detection (tasks w jid)) s")
  from reply_state [OF q] j r have keep: "results s' jid = Some j" "runs s' jid = Some r"
    by simp_all
  show ?thesis
    using r AwaitClassification q stage_after_fin(2) [OF keep, of p "segments_of ws q"]
    by (simp add: processVideo_classified_def analyzeTranscript_reply_def)
qed

lemma job_of_run:
  assumes "service_ok w s" and "runs s jid = Some r"
  obtains j where "results s jid = Some j" and "stage_ok w s jid j r"
  using assms by (auto simp: service_ok_def elim: job_okD)

lemma all_settled:
  assumes ok: "service_ok w s" and j: "results s jid = Some j"
  shows "\<exists>r. runs (exec w (settle_all jid) s) jid = Some r \<and> stage r = Returned"
proof -
  from ok j obtain r0 where r0: "runs s jid = Some r0"
    by (auto simp: service_ok_def job_ok_def split: option.splits dest!: spec [of _ jid])
  define s1 where "s1 = step w (ScreenshotSettles jid) s"
  define s2 where "s2 = step w (AudioSettles jid) s1"
  define s3 where "s3 = step w (TranscriptionSettles jid) s2"
  define s4 where "s4 = step w (DetectionSettles jid) s3"
  have ok1: "service_ok w s1" and ok2: "service_ok w s2" and ok3: "service_ok w s3"
    using ok by (simp_all add: s1_def s2_def s3_def service_ok_step del: step.simps)
  from screenshot_settled [OF r0, of w] obtain r1 where
    r1: "runs s1 jid = Some r1" "screenshot_task r1 \<noteq> None"
    by (auto simp: s1_def)
  from audio_settled [OF r1(1), of w] r1(2) obtain r2 where
    r2: "runs s2 jid = Some r2" "screenshot_task r2 \<noteq> None" "audio_task r2 \<noteq> None"
    by (auto simp: s2_def)
  from ok2 r2(1) obtain j2 where j2: "results s2 jid = Some j2" "stage_ok w s2 jid j2 r2"
    by (rule job_of_run)
  have st2: "stage r2 \<noteq> AwaitAcquisition"
    using acquisition_over [OF j2(2) r2(2,3)] .
  from transcription_settled [OF j2(1) r2(1) st2, of w] obtain r3 where
    r3: "runs s3 jid = Some r3" "stage r3 \<noteq> AwaitAcquisition" "\<And>p. stage r3 \<noteq> AwaitTranscription p"
    by (auto simp: s3_def)
  from ok3 r3(1) obtain j3 where j3: "results s3 jid = Some j3"
    by (rule job_of_run)
  from detection_settled [OF j3 r3(1) r3(2) r3(3), of w] obtain r4 where
    "runs s4 jid = Some r4" "stage r4 = Returned"
    by (auto simp: s4_def)
  then show ?thesis
    by (simp add: settle_all_def s4_def s3_def s2_def s1_def del: step.simps)
qed

lemma terminal_step:
  assumes ok: "service_ok w s" and j: "results s jid = Some j" and t: "status j \<noteq> Processing"
  shows "results (step w e s) jid = Some j"
proof (cases "jid = event_job e")
  case False
  then show ?thesis using frame_step [of jid e s w] j by (simp add: frame_def)
next
  case True
  from ok j obtain r where r: "runs s jid = Some r" and st: "stage_ok w s jid j r"
    by (auto simp: service_ok_def job_ok_def split: option.splits dest!: spec [of _ jid])
  from st t have ret: "stage r = Returned"
    by (cases rule: stage_ok_cases) simp_all
  show ?thesis
    using True j r ret
    by (cases e) (auto simp: resume_acquisition_def split: option.splits)
qed

lemma terminal_exec:
  "service_ok w s \<Longrightarrow> results s jid = Some j \<Longrightarrow> status j \<noteq> Processing \<Longrightarrow>
   results (exec w evs s) jid = Some j"
proof (induction evs arbitrary: s)
  case Nil
  then show ?case by simp
next
  case (Cons e evs)
  from Cons.prems have "results (step w e s) jid = Some j"
    by (rule terminal_step)
  with Cons.IH [OF service_ok_step [OF Cons.prems(1)]] Cons.prems(3)
  show ?case by (simp del: step.simps)
qed


lemma lookup_hit:
  "cache s (hashString text) = Some p \<Longrightarrow> \<not> length text < 50 \<Longrightarrow>
   getAIProbability c reply text s = (p, s\<lparr>classified := classified s @ [(c, text)]\<rparr>)"
  by (simp add: getAIProbability_def getAIProbability_call_def)

lemma lookup_short:
  "length text < 50 \<Longrightarrow>
   getAIProbability c reply text s = (0.5, s\<lparr>classified := classified s @ [(c, text)]\<rparr>)"
  by (simp add: getAIProbability_def getAIProbability_call_def)

lemma lookup_miss:
  "cache s (hashString text) = None \<Longrightarrow> \<not> length text < 50 \<Longrightarrow>
   getAIProbability c reply text s =
     getAIProbability_reply (hashString text) reply
       (s\<lparr>classified := classified s @ [(c, text)], posted := posted s @ [(c, text)]\<rparr>)"
  by (simp add: getAIProbability_def getAIProbability_call_def)

lemma audio_task_rejected:
  assumes "tasks_ok w s jid r" and "audio (tasks w jid) = Rejected m" and "audio_task r \<noteq> None"
  shows "audio_task r = Some (Rejected m)"
  using assms by (auto simp: tasks_ok_def extractAudio_def)

lemma screenshot_task_resolved:
  assumes "tasks_ok w s jid r"
  shows "screenshot_task r = None \<or> (\<exists>u. screenshot_task r = Some (Resolved u))"
  using assms by (cases "screenshot_task r") (auto simp: tasks_ok_def)

lemma placeholder_on_failure:
  "thumbnail_fails t \<Longrightarrow>
   captureScreenshot (shot t) (upload t) = screenshot_failed_url
   \<or> captureScreenshot (shot t) (upload t) = upload_failed_url"
  by (auto simp: thumbnail_fails_def captureScreenshot_def uploadToImgBB_def
           split: outcome.splits option.splits)

lemma completed_screenshot:
  assumes "results (exec w evs (init cwd)) jid = Some j" and "status j = Completed"
  shows "screenshotPath j = captureScreenshot (shot (tasks w jid)) (upload (tasks w jid))"
proof -
  from assms(1) obtain r where t: "tasks_ok w (exec w evs (init cwd)) jid r"
    and st: "stage_ok w (exec w evs (init cwd)) jid j r"
    by (rule reached)
  from st assms(2) have "screenshot_task r = Some (Resolved (screenshotPath j))"
    by (cases rule: stage_ok_cases) (simp_all add: completed_ok_def)
  with t show ?thesis by (simp add: tasks_ok_def)
qed

lemma error_cause:
  assumes "results (exec w evs (init cwd)) jid = Some j" and "status j = Error"
  shows "audio (tasks w jid) = Rejected (the (error j))
         \<or> resolves (audio (tasks w jid)) \<and> transcription (tasks w jid) = Rejected (the (error j))"
proof -
  from assms(1) obtain r where st: "stage_ok w (exec w evs (init cwd)) jid j r"
    by (rule reached)
  from st assms(2) have "failed_ok w jid j r"
    by (cases rule: stage_ok_cases) simp_all
  then show ?thesis
    by (cases "audio (tasks w jid)"; cases "transcription (tasks w jid)")
       (simp_all add: failed_ok_def resolves_def)
qed

lemma settled_terminal:
  assumes "results (exec w evs (init cwd)) jid = Some j"
  shows "\<exists>j'. results (exec w (evs @ settle_all jid) (init cwd)) jid = Some j'
              \<and> status j' \<noteq> Processing"
proof -
  let ?S = "exec w (evs @ settle_all jid) (init cwd)"
  from all_settled [OF service_ok_exec assms] obtain r where
    r: "runs ?S jid = Some r" "stage r = Returned"
    by (auto simp: exec_append)
  from job_of_run [OF service_ok_exec r(1)] obtain j' where
    j': "results ?S jid = Some j'" "stage_ok w ?S jid j' r"
    by blast
  from j'(2) r(2) have "status j' \<noteq> Processing"
    by (cases rule: stage_ok_cases) simp_all
  with j'(1) show ?thesis by blast
qed


lemma promise_all_pending:
  "promise_all a b = None \<Longrightarrow> a = None \<or> b = None"
  by (cases a; cases b) (auto elim: promise_all.elims)


lemma length_segments_of [simp]: "length (segments_of ws p) = length ws"
  by (simp add: segments_of_def)








text \<open>A submission with a valid address: the job is stored as processing and both
  acquisition tasks are pending.\<close>

lemma analyzeVideo_valid:
  assumes "validateURL w url"
  shows "\<exists>s'. analyzeVideo w url i now s = Inr (i, s')
              \<and> map_option status (results s' i) = Some Processing
              \<and> runs s' i = Some \<lparr> screenshot_task = None, audio_task = None,
                                   stage = AwaitAcquisition \<rparr>"
  using assms by (simp add: analyzeVideo_def processVideo_def)

section \<open>The job record and its summary\<close>

text \<open>
  C1 (as the code has it). In every state the service can reach, for every job record in
  the store: the summary \<open>overallAnalysis\<close> is present exactly when the status is
  \<open>completed\<close>; while the status is not \<open>completed\<close> the segment list is empty; and
  when the status is \<open>completed\<close> the transcription of that job has resolved and the
  record holds one segment per raw unit of its answer, so the segment list is non-empty
  exactly when the transcription returned at least one raw unit.
\<close>

theorem summary_iff_completed:
  assumes "results (exec w evs (init cwd)) jid = Some j"
  shows "(overallAnalysis j \<noteq> None \<longleftrightarrow> status j = Completed)
         \<and> (status j \<noteq> Completed \<longrightarrow> transcript j = [])
         \<and> (status j = Completed \<longrightarrow>
              (\<exists>t. transcription (tasks w jid) = Resolved t
                   \<and> length (transcript j) = length (words_of t)))"
proof -
  from assms obtain r where st: "stage_ok w (exec w evs (init cwd)) jid j r"
    by (rule reached)
  from st show ?thesis
  proof (cases rule: stage_ok_cases)
    case processing
    then show ?thesis by (simp add: fresh_job_def)
  next
    case failed
    then show ?thesis by (simp add: failed_ok_def)
  next
    case completed
    then have "transcription (tasks w jid) = Resolved (the_transcript w jid)"
      and "length (transcript j) = length (words_of (the_transcript w jid))"
      and "overallAnalysis j \<noteq> None"
      by (simp_all add: completed_ok_def segments_of_def)
    with completed(1) show ?thesis by auto
  qed
qed

text \<open>The run of one job in which every task succeeds ends in such a record: completed,
  with a summary and two segments.\<close>

theorem summary_iff_completed_witness:
  "results (exec (world_of tasks_succeed) one_job (init ''/app'')) ''job-1''
     = Some (the (results (exec (world_of tasks_succeed) one_job (init ''/app'')) ''job-1''))
   \<and> status (the (results (exec (world_of tasks_succeed) one_job (init ''/app'')) ''job-1'')) = Completed
   \<and> overallAnalysis (the (results (exec (world_of tasks_succeed) one_job (init ''/app'')) ''job-1'')) \<noteq> None
   \<and> length (transcript (the (results (exec (world_of tasks_succeed) one_job (init ''/app'')) ''job-1''))) = 2"
proof -
  let ?S = "exec (world_of tasks_succeed) one_job (init ''/app'')"
  have h: "results ?S ''job-1'' = Some (the (results ?S ''job-1''))"
    by code_simp
  have c: "status (the (results ?S ''job-1'')) = Completed"
    by code_simp
  have t: "transcription (tasks (world_of tasks_succeed) ''job-1'')
             = Resolved \<lparr> t_words = Some [spoken ''the quick brown fox jumps'',
                                         spoken ''over the lazy dog and runs away''],
                          t_segments = None \<rparr>"
    by (simp add: world_of_def tasks_succeed_def)
  from summary_iff_completed [OF h] c t h show ?thesis
    by (simp add: words_of_def or_array_def)
qed

text \<open>
  C1 as stated fails. When the transcription resolves with an empty list of raw units,
  \<open>analyzeTranscript\<close> returns \<open>[]\<close> at once and \<open>processVideo\<close> goes on to store
  the empty list with its summary and to set the status to \<open>completed\<close>: the job is
  completed, its summary is present, and its segment list is empty.
\<close>

theorem completed_with_no_segments:
  "map_option status (results (exec (world_of tasks_silent) one_job (init ''/app'')) ''job-1'')
     = Some Completed
   \<and> map_option transcript (results (exec (world_of tasks_silent) one_job (init ''/app'')) ''job-1'')
     = Some []
   \<and> map_option overallAnalysis (results (exec (world_of tasks_silent) one_job (init ''/app'')) ''job-1'')
     = Some (Some (calculateOverallAnalysis []))"
  by code_simp

section \<open>The aggregator on an empty list\<close>

text \<open>
  C2 (as the code has it). For an empty segment list the sum is 0 and the divisor is
  \<open>segments.length || 1 = 1\<close>, so \<open>calculateOverallAnalysis\<close> returns
  \<open>overall_ai_probability = 0\<close>, hence the prediction for human content; neither count
  exceeds \<open>0 * 0.8\<close>, so \<open>confidence_level\<close> is \<open>medium\<close>.
\<close>

theorem aggregator_on_empty_list:
  "overall_ai_probability (calculateOverallAnalysis []) = 0
   \<and> confidence_level (calculateOverallAnalysis []) = Medium
   \<and> overall_prediction (calculateOverallAnalysis []) = ''Human-Generated Content''"
  by (simp add: calculateOverallAnalysis_def)

text \<open>C2 as stated fails: the probability returned for the empty list is not 0.5.\<close>

theorem aggregator_on_empty_list_not_neutral:
  "\<not> (overall_ai_probability (calculateOverallAnalysis []) = 0.5
       \<and> confidence_level (calculateOverallAnalysis []) = Medium)"
  by (simp add: calculateOverallAnalysis_def)

section \<open>The temporary audio file\<close>

text \<open>
  C3 (what the code does where the claim fails). The audio extraction succeeds and has
  written \<open>/app/temp/job-1.wav\<close>, then the transcription fails. The run ends in the
  \<open>catch\<close> block: the job is in error with the message of the failure,
  \<open>processVideo\<close> has returned, and \<open>fs.unlink\<close> has not been called on the file.
  The only call of \<open>fs.unlink\<close> is the last statement of the \<open>try\<close> block, which the
  run in which every task succeeds does reach.
\<close>

theorem audio_file_kept_when_transcription_fails:
  "map_option status (results (exec (world_of tasks_untranscribed) one_job (init ''/app'')) ''job-1'')
     = Some Error
   \<and> map_option error (results (exec (world_of tasks_untranscribed) one_job (init ''/app'')) ''job-1'')
     = Some (Some ''Request failed with status code 401'')
   \<and> map_option audio_task (runs (exec (world_of tasks_untranscribed) one_job (init ''/app'')) ''job-1'')
     = Some (Some (Resolved ''/app/temp/job-1.wav''))
   \<and> map_option stage (runs (exec (world_of tasks_untranscribed) one_job (init ''/app'')) ''job-1'')
     = Some Returned
   \<and> unlinked (exec (world_of tasks_untranscribed) one_job (init ''/app'')) = []
   \<and> unlinked (exec (world_of tasks_succeed) one_job (init ''/app'')) = [''/app/temp/job-1.wav'']"
  by code_simp

section \<open>Looking a text up twice\<close>

text \<open>
  C4 (as the code has it). Two calls of \<open>getAIProbability\<close> with the same text, one
  after the other with nothing in between, return the same probability, the second call
  posts nothing to the detection endpoint, and both together post at most once, provided
  that the first call did not fall back on a failed request: the text is shorter than 50
  code units, or its fingerprint is already in the cache, or the endpoint answers the first
  call with a label.
\<close>

theorem second_lookup_is_cached:
  assumes first: "getAIProbability c1 r1 text s = (p1, s1)"
    and second: "getAIProbability c2 r2 text s1 = (p2, s2)"
    and ok: "length text < 50 \<or> cache s (hashString text) \<noteq> None \<or> answered r1"
  shows "p2 = p1 \<and> posted s2 = posted s1 \<and> length (posted s2) \<le> length (posted s) + 1"
proof (cases "length text < 50")
  case True
  with first second show ?thesis by (auto simp: lookup_short)
next
  case long: False
  show ?thesis
  proof (cases "cache s (hashString text)")
    case (Some p)
    with long first have 1: "p1 = p" "s1 = s\<lparr>classified := classified s @ [(c1, text)]\<rparr>"
      by (simp_all add: lookup_hit)
    then have "cache s1 (hashString text) = Some p" using Some by simp
    with long second have "p2 = p" "s2 = s1\<lparr>classified := classified s1 @ [(c2, text)]\<rparr>"
      by (simp_all add: lookup_hit)
    with 1 show ?thesis by simp
  next
    case None
    with ok long obtain label where r1: "r1 = Resolved (Some label)"
      by (auto simp: answered_def split: outcome.splits option.splits)
    define p where "p = (if label = 0 then 0.8 else 0.2 :: real)"
    from first None long r1 have 1: "p1 = p"
      "s1 = s\<lparr>classified := classified s @ [(c1, text)], posted := posted s @ [(c1, text)],
              cache := (cache s)(hashString text \<mapsto> p)\<rparr>"
      by (auto simp: lookup_miss getAIProbability_reply_def p_def Let_def)
    then have "cache s1 (hashString text) = Some p" by simp
    with long second have "p2 = p" "s2 = s1\<lparr>classified := classified s1 @ [(c2, text)]\<rparr>"
      by (simp_all add: lookup_hit)
    with 1 show ?thesis by simp
  qed
qed

text \<open>On an empty cache, a first call that the endpoint answers, then a second call that
  would time out if it were sent.\<close>

theorem second_lookup_is_cached_witness:
  "answered (Resolved (Some 0))
   \<and> fst (getAIProbability ''job-2'' (Rejected ''timeout of 15000ms exceeded'') long_text
            (snd (getAIProbability ''job-1'' (Resolved (Some 0)) long_text (init ''/app''))))
       = fst (getAIProbability ''job-1'' (Resolved (Some 0)) long_text (init ''/app''))
   \<and> posted (snd (getAIProbability ''job-2'' (Rejected ''timeout of 15000ms exceeded'') long_text
            (snd (getAIProbability ''job-1'' (Resolved (Some 0)) long_text (init ''/app'')))))
       = posted (snd (getAIProbability ''job-1'' (Resolved (Some 0)) long_text (init ''/app'')))
   \<and> length (posted (snd (getAIProbability ''job-2'' (Rejected ''timeout of 15000ms exceeded'') long_text
            (snd (getAIProbability ''job-1'' (Resolved (Some 0)) long_text (init ''/app''))))))
       \<le> length (posted (init ''/app'')) + 1"
proof -
  let ?first = "getAIProbability ''job-1'' (Resolved (Some 0)) long_text (init ''/app'')"
  let ?second = "getAIProbability ''job-2'' (Rejected ''timeout of 15000ms exceeded'') long_text (snd ?first)"
  have h1: "?first = (fst ?first, snd ?first)" by simp
  have h2: "?second = (fst ?second, snd ?second)" by simp
  have a: "answered (Resolved (Some 0))"
    by (simp add: answered_def)
  then have h3: "length long_text < 50 \<or> cache (init ''/app'') (hashString long_text) \<noteq> None
            \<or> answered (Resolved (Some 0))"
    by simp
  from second_lookup_is_cached [OF h1 h2 h3] a show ?thesis
    by blast
qed

text \<open>
  C4 as stated fails. When the first request fails, the call returns the neutral 0.5 from
  the \<open>catch\<close> block and stores nothing; the second call for the same text finds no
  entry, posts again, and returns what the endpoint now answers: 0.5 and then 0.8, with two
  requests for the one fingerprint.
\<close>

theorem second_lookup_after_failure:
  "fst (getAIProbability ''job-1'' (Rejected ''timeout of 15000ms exceeded'') long_text (init ''/app''))
     = 0.5
   \<and> fst (getAIProbability ''job-1'' (Resolved (Some 0)) long_text
          (snd (getAIProbability ''job-1'' (Rejected ''timeout of 15000ms exceeded'') long_text
                  (init ''/app''))))
     = 0.8
   \<and> posted (snd (getAIProbability ''job-1'' (Resolved (Some 0)) long_text
          (snd (getAIProbability ''job-1'' (Rejected ''timeout of 15000ms exceeded'') long_text
                  (init ''/app'')))))
     = [(''job-1'', long_text), (''job-1'', long_text)]"
  by code_simp

section \<open>Failure of the audio extraction\<close>

text \<open>
  C5 (as the code has it). Let the audio extraction of a job fail with the message \<open>m\<close>,
  and take the record \<open>j\<close> of that job in any reachable state. Its segment list is empty
  and it is not completed. Once the audio task has settled, whatever happens later, the
  store holds for this job the record \<open>j\<close> with status \<open>error\<close> and error detail
  \<open>m\<close>: the status is terminal, the detail is the message of the failure, unchanged, and
  the segment list is still empty.
\<close>

theorem audio_failure_ends_in_error:
  assumes a: "audio (tasks w jid) = Rejected m"
    and j: "results (exec w evs (init cwd)) jid = Some j"
  shows "transcript j = [] \<and> status j \<noteq> Completed
         \<and> results (exec w (evs @ AudioSettles jid # later) (init cwd)) jid
             = Some (j\<lparr>status := Error, error := Some m\<rparr>)"
proof -
  let ?S = "exec w evs (init cwd)"
  from j obtain r where r: "runs ?S jid = Some r"
    and t: "tasks_ok w ?S jid r" and st: "stage_ok w ?S jid j r"
    by (rule reached)
  have ok: "service_ok w ?S" by (rule service_ok_exec)
  have ok': "service_ok w (step w (AudioSettles jid) ?S)"
    using ok by (rule service_ok_step)
  have run: "exec w (evs @ AudioSettles jid # later) (init cwd)
               = exec w later (step w (AudioSettles jid) ?S)"
    by (simp add: exec_append del: step.simps)
  show ?thesis
  proof (cases "audio_task r")
    case (Some x)
    with audio_task_rejected [OF t a] have rej: "audio_task r = Some (Rejected m)" by simp
    have same: "step w (AudioSettles jid) ?S = ?S"
      using r Some by simp
    from st have "transcript j = [] \<and> status j = Error \<and> error j = Some m"
    proof (cases rule: stage_ok_cases)
      case processing
      then show ?thesis
        using st rej screenshot_task_resolved [OF t]
        by (cases "stage r") (auto simp: stage_ok_def)
    next
      case completed
      then show ?thesis using rej by (simp add: completed_ok_def)
    next
      case failed
      then show ?thesis using a by (simp add: failed_ok_def)
    qed
    then have f: "transcript j = []" "status j \<noteq> Completed" "status j \<noteq> Processing"
      "j\<lparr>status := Error, error := Some m\<rparr> = j"
      by simp_all
    from terminal_exec [OF ok j f(3), of later]
    have "results (exec w (evs @ AudioSettles jid # later) (init cwd)) jid
            = Some (j\<lparr>status := Error, error := Some m\<rparr>)"
      by (simp add: run same f(4) del: step.simps)
    with f(1,2) show ?thesis by blast
  next
    case None
    from st have "fresh_job j \<and> stage r = AwaitAcquisition"
    proof (cases rule: stage_ok_cases)
      case processing
      with st None show ?thesis
        by (cases "stage r") (simp_all add: stage_ok_def)
    next
      case completed
      with None show ?thesis by (simp add: completed_ok_def)
    next
      case failed
      with None show ?thesis by (simp add: failed_ok_def)
    qed
    then have fresh: "fresh_job j" and acq: "stage r = AwaitAcquisition"
      by simp_all
    have stepped: "results (step w (AudioSettles jid) ?S) jid
                     = Some (j\<lparr>status := Error, error := Some m\<rparr>)"
      using r j None acq a screenshot_task_resolved [OF t]
      by (auto simp: resume_acquisition_def extractAudio_def fin_defs)
    have "results (exec w later (step w (AudioSettles jid) ?S)) jid
            = Some (j\<lparr>status := Error, error := Some m\<rparr>)"
      using ok' stepped by (rule terminal_exec) simp
    then have "results (exec w (evs @ AudioSettles jid # later) (init cwd)) jid
            = Some (j\<lparr>status := Error, error := Some m\<rparr>)"
      by (simp add: run del: step.simps)
    moreover from fresh have "transcript j = []" "status j \<noteq> Completed"
      by (simp_all add: fresh_job_def)
    ultimately show ?thesis by blast
  qed
qed

text \<open>A job has been submitted and its thumbnail captured; then ffmpeg fails.\<close>

theorem audio_failure_ends_in_error_witness:
  "audio (tasks (world_of tasks_unextracted) ''job-1'') = Rejected ''ffmpeg exited with code 1''
   \<and> results (exec (world_of tasks_unextracted) (take 2 one_job) (init ''/app'')) ''job-1''
       = Some (the (results (exec (world_of tasks_unextracted) (take 2 one_job) (init ''/app'')) ''job-1''))
   \<and> map_option status
        (results (exec (world_of tasks_unextracted) (take 2 one_job @ AudioSettles ''job-1'' # drop 3 one_job)
          (init ''/app'')) ''job-1'') = Some Error
   \<and> map_option error
        (results (exec (world_of tasks_unextracted) (take 2 one_job @ AudioSettles ''job-1'' # drop 3 one_job)
          (init ''/app'')) ''job-1'') = Some (Some ''ffmpeg exited with code 1'')
   \<and> map_option transcript
        (results (exec (world_of tasks_unextracted) (take 2 one_job @ AudioSettles ''job-1'' # drop 3 one_job)
          (init ''/app'')) ''job-1'') = Some []"
proof -
  let ?w = "world_of tasks_unextracted"
  let ?S = "exec ?w (take 2 one_job) (init ''/app'')"
  have h1: "audio (tasks ?w ''job-1'') = Rejected ''ffmpeg exited with code 1''"
    by (simp add: world_of_def tasks_unextracted_def)
  have h3: "results ?S ''job-1'' = Some (the (results ?S ''job-1''))"
    by code_simp
  from audio_failure_ends_in_error [OF h1 h3, of "drop 3 one_job"] h1 h3
  show ?thesis by simp
qed

text \<open>
  C5 as stated fails. The \<open>catch\<close> block stores \<open>error.message\<close> as it is: when the
  extraction rejects with an error whose message is the empty string, the job ends in
  error with the empty string as its detail.
\<close>

theorem empty_message_gives_empty_detail:
  "map_option status
     (results (exec (world_of tasks_unextracted_mute)
        [Submit ''https://youtu.be/dQw4w9WgXcQ'' ''job-1'' 1700000000000, AudioSettles ''job-1'']
        (init ''/app'')) ''job-1'') = Some Error
   \<and> map_option error
       (results (exec (world_of tasks_unextracted_mute)
          [Submit ''https://youtu.be/dQw4w9WgXcQ'' ''job-1'' 1700000000000, AudioSettles ''job-1'']
          (init ''/app'')) ''job-1'') = Some (Some [])
   \<and> map_option transcript
       (results (exec (world_of tasks_unextracted_mute)
          [Submit ''https://youtu.be/dQw4w9WgXcQ'' ''job-1'' 1700000000000, AudioSettles ''job-1'']
          (init ''/app'')) ''job-1'') = Some []"
  by code_simp

section \<open>Failure of the thumbnail capture\<close>

text \<open>
  C6. Let the thumbnail capture of a job fail: the browser session throws, or the upload
  request fails, or the image host refuses, or its answer has no \<open>data\<close>. Then in every
  reachable state: if the job is completed, its thumbnail reference is one of the two
  placeholder addresses (\<open>Screenshot+Failed\<close> when the browser failed,
  \<open>Upload+Failed\<close> when the upload did); if the job is in error, the error detail is the
  message with which its audio extraction or its transcription failed, so the thumbnail is
  never the cause; and if the audio extraction and the transcription of the job succeed,
  the job is never in error, and once its pending tasks have settled it is completed with
  a placeholder as its thumbnail reference.
\<close>

theorem thumbnail_failure_is_absorbed:
  assumes f: "thumbnail_fails (tasks w jid)"
    and j: "results (exec w evs (init cwd)) jid = Some j"
  shows "(status j = Completed \<longrightarrow>
            screenshotPath j = screenshot_failed_url \<or> screenshotPath j = upload_failed_url)
         \<and> (status j = Error \<longrightarrow>
              audio (tasks w jid) = Rejected (the (error j))
              \<or> transcription (tasks w jid) = Rejected (the (error j)))
         \<and> (resolves (audio (tasks w jid)) \<and> resolves (transcription (tasks w jid)) \<longrightarrow>
              status j \<noteq> Error
              \<and> map_option status (results (exec w (evs @ settle_all jid) (init cwd)) jid)
                  = Some Completed
              \<and> (map_option screenshotPath (results (exec w (evs @ settle_all jid) (init cwd)) jid)
                    = Some screenshot_failed_url
                 \<or> map_option screenshotPath (results (exec w (evs @ settle_all jid) (init cwd)) jid)
                    = Some upload_failed_url))"
proof (intro conjI impI)
  assume "status j = Completed"
  with completed_screenshot [OF j] placeholder_on_failure [OF f]
  show "screenshotPath j = screenshot_failed_url \<or> screenshotPath j = upload_failed_url"
    by simp
next
  assume "status j = Error"
  with error_cause [OF j]
  show "audio (tasks w jid) = Rejected (the (error j))
        \<or> transcription (tasks w jid) = Rejected (the (error j))"
    by blast
next
  assume ok: "resolves (audio (tasks w jid)) \<and> resolves (transcription (tasks w jid))"
  have no_error: "status j' \<noteq> Error" if "results (exec w es (init cwd)) jid = Some j'" for es j'
  proof
    assume "status j' = Error"
    from error_cause [OF that this] ok show False
      by (auto simp: resolves_def)
  qed
  from no_error [OF j] show "status j \<noteq> Error" .
  from settled_terminal [OF j] obtain j' where
    j': "results (exec w (evs @ settle_all jid) (init cwd)) jid = Some j'" "status j' \<noteq> Processing"
    by blast
  with no_error [OF j'(1)] have c: "status j' = Completed"
    by (cases "status j'") simp_all
  with j'(1) show "map_option status (results (exec w (evs @ settle_all jid) (init cwd)) jid)
                     = Some Completed"
    by simp
  from completed_screenshot [OF j'(1) c] placeholder_on_failure [OF f] j'(1)
  show "map_option screenshotPath (results (exec w (evs @ settle_all jid) (init cwd)) jid)
          = Some screenshot_failed_url
        \<or> map_option screenshotPath (results (exec w (evs @ settle_all jid) (init cwd)) jid)
          = Some upload_failed_url"
    by auto
qed

text \<open>A job has been submitted; the browser will time out, everything else succeeds.\<close>

theorem thumbnail_failure_is_absorbed_witness:
  "thumbnail_fails (tasks (world_of tasks_unseen) ''job-1'')
   \<and> results (exec (world_of tasks_unseen) (take 1 one_job) (init ''/app'')) ''job-1''
       = Some (the (results (exec (world_of tasks_unseen) (take 1 one_job) (init ''/app'')) ''job-1''))
   \<and> resolves (audio (tasks (world_of tasks_unseen) ''job-1''))
   \<and> resolves (transcription (tasks (world_of tasks_unseen) ''job-1''))
   \<and> map_option status
        (results (exec (world_of tasks_unseen) (take 1 one_job @ settle_all ''job-1'') (init ''/app''))
           ''job-1'') = Some Completed
   \<and> map_option screenshotPath
        (results (exec (world_of tasks_unseen) (take 1 one_job @ settle_all ''job-1'') (init ''/app''))
           ''job-1'') = Some screenshot_failed_url"
proof -
  let ?w = "world_of tasks_unseen"
  let ?S = "exec ?w (take 1 one_job) (init ''/app'')"
  have h1: "thumbnail_fails (tasks ?w ''job-1'')"
    by (simp add: world_of_def tasks_unseen_def thumbnail_fails_def)
  have h2: "results ?S ''job-1'' = Some (the (results ?S ''job-1''))"
    by code_simp
  have h3: "resolves (audio (tasks ?w ''job-1''))" "resolves (transcription (tasks ?w ''job-1''))"
    by (simp_all add: world_of_def tasks_unseen_def tasks_succeed_def resolves_def)
  have v: "map_option screenshotPath
        (results (exec ?w (take 1 one_job @ settle_all ''job-1'') (init ''/app'')) ''job-1'')
         \<noteq> Some upload_failed_url"
    by code_simp
  from thumbnail_failure_is_absorbed [OF h1 h2] h1 h2 h3 v
  show ?thesis by blast
qed

section \<open>Terminal records\<close>

text \<open>
  C7. A job record whose status is no longer \<open>processing\<close> is \<open>completed\<close> or
  \<open>error\<close>, and it is final: after any further events the store holds the identical
  record for that job, and \<open>getResult\<close> answers the same; so the status leaves
  \<open>processing\<close> at most once. And \<open>analyzeVideo\<close>, given a valid address, stores
  the new job with status \<open>processing\<close>.
\<close>

theorem terminal_record_is_final:
  assumes "results (exec w evs (init cwd)) jid = Some j" and "status j \<noteq> Processing"
  shows "(status j = Completed \<or> status j = Error)
         \<and> results (exec w (evs @ later) (init cwd)) jid = Some j
         \<and> getResult jid (exec w (evs @ later) (init cwd)) = getResult jid (exec w evs (init cwd))
         \<and> (validateURL w url \<longrightarrow>
              (\<exists>s'. analyzeVideo w url i now s = Inr (i, s')
                    \<and> map_option status (results s' i) = Some Processing))"
proof -
  have "results (exec w (evs @ later) (init cwd)) jid = Some j"
    unfolding exec_append
    using service_ok_exec assms by (rule terminal_exec)
  with assms have "(status j = Completed \<or> status j = Error)
         \<and> results (exec w (evs @ later) (init cwd)) jid = Some j
         \<and> getResult jid (exec w (evs @ later) (init cwd)) = getResult jid (exec w evs (init cwd))"
    by (cases "status j") (simp_all add: getResult_def)
  moreover have "validateURL w url \<longrightarrow>
              (\<exists>s'. analyzeVideo w url i now s = Inr (i, s')
                    \<and> map_option status (results s' i) = Some Processing)"
    using analyzeVideo_valid [of w url i now s] by blast
  ultimately show ?thesis by blast
qed

text \<open>The completed record of a job stays as it is when the events of its tasks are
  delivered once more; a second job is then submitted.\<close>

theorem terminal_record_is_final_witness:
  "results (exec (world_of tasks_succeed) one_job (init ''/app'')) ''job-1''
     = Some (the (results (exec (world_of tasks_succeed) one_job (init ''/app'')) ''job-1''))
   \<and> status (the (results (exec (world_of tasks_succeed) one_job (init ''/app'')) ''job-1'')) \<noteq> Processing
   \<and> results (exec (world_of tasks_succeed) (one_job @ settle_all ''job-1'') (init ''/app'')) ''job-1''
     = Some (the (results (exec (world_of tasks_succeed) one_job (init ''/app'')) ''job-1''))
   \<and> validateURL (world_of tasks_succeed) ''https://youtu.be/dQw4w9WgXcQ''
   \<and> (\<exists>s'. analyzeVideo (world_of tasks_succeed) ''https://youtu.be/dQw4w9WgXcQ'' ''job-2''
               1700000000001 (exec (world_of tasks_succeed) one_job (init ''/app''))
             = Inr (''job-2'', s')
           \<and> map_option status (results s' ''job-2'') = Some Processing)"
proof -
  let ?S = "exec (world_of tasks_succeed) one_job (init ''/app'')"
  have h1: "results ?S ''job-1'' = Some (the (results ?S ''job-1''))"
    by code_simp
  have h2: "status (the (results ?S ''job-1'')) \<noteq> Processing"
    by code_simp
  have h3: "validateURL (world_of tasks_succeed) ''https://youtu.be/dQw4w9WgXcQ''"
    by (simp add: world_of_def)
  from terminal_record_is_final
         [OF h1 h2, of "settle_all ''job-1''" "''https://youtu.be/dQw4w9WgXcQ''" "''job-2''"
            1700000000001 ?S] h1 h2 h3
  show ?thesis by blast
qed

section \<open>One classification for all segments\<close>



section \<open>Waiting for the two acquisition tasks\<close>

text \<open>
  C9 (as the code has it). In every reachable state, for a job and its run: while
  \<open>processVideo\<close> waits at \<open>Promise.all\<close> the job is processing and at least one of
  the two tasks is pending; once it has gone past \<open>Promise.all\<close> without an error, both
  tasks have resolved; and when the job is in error, the run has returned and the audio
  task has settled, though the thumbnail task need not have. And \<open>analyzeVideo\<close>, given
  a valid address, leaves the run at \<open>Promise.all\<close> with both tasks started and pending.
\<close>

theorem acquisition_join:
  assumes j: "results (exec w evs (init cwd)) jid = Some j"
    and r: "runs (exec w evs (init cwd)) jid = Some r"
  shows "(stage r = AwaitAcquisition \<longrightarrow>
            status j = Processing \<and> (screenshot_task r = None \<or> audio_task r = None))
         \<and> (stage r \<noteq> AwaitAcquisition \<and> status j \<noteq> Error \<longrightarrow>
              (\<exists>u p. screenshot_task r = Some (Resolved u) \<and> audio_task r = Some (Resolved p)))
         \<and> (status j = Error \<longrightarrow> stage r = Returned \<and> audio_task r \<noteq> None)
         \<and> (validateURL w url \<longrightarrow>
              (\<exists>s'. analyzeVideo w url i now s = Inr (i, s')
                    \<and> runs s' i = Some \<lparr> screenshot_task = None, audio_task = None,
                                         stage = AwaitAcquisition \<rparr>))"
proof -
  from j obtain r' where r': "runs (exec w evs (init cwd)) jid = Some r'"
    and st': "stage_ok w (exec w evs (init cwd)) jid j r'"
    by (rule reached)
  with r have st: "stage_ok w (exec w evs (init cwd)) jid j r" by simp
  have start: "validateURL w url \<longrightarrow>
              (\<exists>s'. analyzeVideo w url i now s = Inr (i, s')
                    \<and> runs s' i = Some \<lparr> screenshot_task = None, audio_task = None,
                                         stage = AwaitAcquisition \<rparr>)"
    using analyzeVideo_valid [of w url i now s] by blast
  have "(stage r = AwaitAcquisition \<longrightarrow>
            status j = Processing \<and> (screenshot_task r = None \<or> audio_task r = None))
         \<and> (stage r \<noteq> AwaitAcquisition \<and> status j \<noteq> Error \<longrightarrow>
              (\<exists>u p. screenshot_task r = Some (Resolved u) \<and> audio_task r = Some (Resolved p)))
         \<and> (status j = Error \<longrightarrow> stage r = Returned \<and> audio_task r \<noteq> None)"
  proof (cases "stage r")
    case AwaitAcquisition
    with st show ?thesis
      by (auto simp: stage_ok_def fresh_job_def dest: promise_all_pending)
  next
    case (AwaitTranscription p)
    with st show ?thesis by (simp add: stage_ok_def fresh_job_def)
  next
    case (AwaitClassification p ws h)
    with st show ?thesis by (simp add: stage_ok_def fresh_job_def)
  next
    case Returned
    with st show ?thesis
      by (cases "status j"; cases "audio_task r")
         (auto simp: stage_ok_def completed_ok_def failed_ok_def split: outcome.splits)
  qed
  with start show ?thesis by simp
qed

text \<open>A job is submitted; later both its tasks have resolved and the run waits for the
  transcription.\<close>

theorem acquisition_join_witness:
  "results (exec (world_of tasks_succeed) (take 3 one_job) (init ''/app'')) ''job-1''
     = Some (the (results (exec (world_of tasks_succeed) (take 3 one_job) (init ''/app'')) ''job-1''))
   \<and> runs (exec (world_of tasks_succeed) (take 3 one_job) (init ''/app'')) ''job-1''
     = Some (the (runs (exec (world_of tasks_succeed) (take 3 one_job) (init ''/app'')) ''job-1''))
   \<and> stage (the (runs (exec (world_of tasks_succeed) (take 3 one_job) (init ''/app'')) ''job-1''))
       = AwaitTranscription ''/app/temp/job-1.wav''
   \<and> status (the (results (exec (world_of tasks_succeed) (take 3 one_job) (init ''/app'')) ''job-1''))
       = Processing
   \<and> (\<exists>u p. screenshot_task (the (runs (exec (world_of tasks_succeed) (take 3 one_job) (init ''/app'')) ''job-1''))
                = Some (Resolved u)
            \<and> audio_task (the (runs (exec (world_of tasks_succeed) (take 3 one_job) (init ''/app'')) ''job-1''))
                = Some (Resolved p))
   \<and> validateURL (world_of tasks_succeed) ''https://youtu.be/dQw4w9WgXcQ''
   \<and> (\<exists>s'. analyzeVideo (world_of tasks_succeed) ''https://youtu.be/dQw4w9WgXcQ'' ''job-1''
               1700000000000 (init ''/app'')
             = Inr (''job-1'', s')
           \<and> runs s' ''job-1'' = Some \<lparr> screenshot_task = None, audio_task = None,
                                        stage = AwaitAcquisition \<rparr>)"
proof -
  let ?S = "exec (world_of tasks_succeed) (take 3 one_job) (init ''/app'')"
  have h1: "results ?S ''job-1'' = Some (the (results ?S ''job-1''))" by code_simp
  have h2: "runs ?S ''job-1'' = Some (the (runs ?S ''job-1''))" by code_simp
  have v1: "stage (the (runs ?S ''job-1'')) = AwaitTranscription ''/app/temp/job-1.wav''"
    by code_simp
  have v2: "status (the (results ?S ''job-1'')) = Processing" by code_simp
  have h3: "validateURL (world_of tasks_succeed) ''https://youtu.be/dQw4w9WgXcQ''"
    by (simp add: world_of_def)
  have ne: "AwaitTranscription ''/app/temp/job-1.wav'' \<noteq> AwaitAcquisition" "Processing \<noteq> Error"
    by simp_all
  from acquisition_join
         [OF h1 h2, of "''https://youtu.be/dQw4w9WgXcQ''" "''job-1''" 1700000000000 "init ''/app''"]
       h1 h2 v1 v2 h3 ne
  show ?thesis by metis
qed

text \<open>
  C9 as stated fails. \<open>Promise.all\<close> rejects as soon as one of its promises rejects:
  when the audio extraction fails first, the \<open>catch\<close> block writes the error while the
  thumbnail capture is still pending.
\<close>

theorem error_written_while_thumbnail_pending:
  "map_option status
     (results (exec (world_of tasks_unextracted)
        [Submit ''https://youtu.be/dQw4w9WgXcQ'' ''job-1'' 1700000000000, AudioSettles ''job-1'']
        (init ''/app'')) ''job-1'') = Some Error
   \<and> map_option screenshot_task
       (runs (exec (world_of tasks_unextracted)
          [Submit ''https://youtu.be/dQw4w9WgXcQ'' ''job-1'' 1700000000000, AudioSettles ''job-1'']
          (init ''/app'')) ''job-1'') = Some None"
  by code_simp

section \<open>The values a probability can take\<close>



end
